theory Spec2Isabelle
  imports Main "HOL-Library.Word" "HOL-Library.Sublist"
begin

unbundle bit_operations_syntax

section \<open>Constants\<close>

text \<open>
  Error codes are the Linux errno values; the controller returns them negated.
  The specification's error kinds map onto them as the code returns them:
  NO_NETWORK is \<open>- ENONET\<close>, REMOTE_IO is \<open>- EREMOTEIO\<close>, PERMISSION_DENIED is
  \<open>- EPERM\<close>, ACCESS_DENIED is \<open>- EACCES\<close>, INVALID_ARG is \<open>- EINVAL\<close>, DUPLICATE is
  \<open>- EEXIST\<close>.
\<close>

definition EPERM :: int where "EPERM = 1"
definition ENOENT :: int where "ENOENT = 2"
definition ESRCH :: int where "ESRCH = 3"
definition EACCES :: int where "EACCES = 13"
definition EBUSY :: int where "EBUSY = 16"
definition EEXIST :: int where "EEXIST = 17"
definition ENODEV :: int where "ENODEV = 19"
definition EINVAL :: int where "EINVAL = 22"
definition ENONET :: int where "ENONET = 64"
definition EREMOTEIO :: int where "EREMOTEIO = 121"

lemmas errno_defs =
  EPERM_def ENOENT_def ESRCH_def EACCES_def EBUSY_def EEXIST_def ENODEV_def EINVAL_def
  ENONET_def
  EREMOTEIO_def

text \<open>NetworkController.cpp, anonymous namespace.\<close>

definition MIN_NET_ID :: nat where "MIN_NET_ID = 100"
definition MAX_NET_ID :: nat where "MAX_NET_ID = 65535"

text \<open>Modelled from the spec: netid_client.h is absent; the spec gives UNSET (0).\<close>

definition NETID_UNSET :: nat where "NETID_UNSET = 0"

text \<open>
  Modelled from the spec: UidRanges.h is absent; the comment in
  getPhysicalOrUnreachableNetworkForUserLocked gives the value 999 (and 998 for
  SUB_PRIORITY_LOWEST).
\<close>

definition SUB_PRIORITY_NO_DEFAULT :: int where "SUB_PRIORITY_NO_DEFAULT = 999"

text \<open>Modelled from the spec: Permission.h is absent; the spec and the comment in
  checkUserNetworkAccessLocked give PERMISSION_NONE = 0.\<close>

definition PERMISSION_NONE :: nat where "PERMISSION_NONE = 0"

text \<open>
  The constants whose declarations (NetworkController.h, Permission.h, the NativeVpnType
  enumeration, the platform's uid table) are not part of the sources at hand are
  parameters of the model.
\<close>

record config =
  MIN_OEM_ID :: nat
  MAX_OEM_ID :: nat
  LOCAL_NET_ID :: nat
  DUMMY_NET_ID :: nat
  UNREACHABLE_NET_ID :: nat
  AID_VPN :: nat
  FIRST_APPLICATION_UID :: nat
  INVALID_UID :: nat
  PERMISSION_NETWORK :: nat
  PERMISSION_SYSTEM :: nat
  VPN_TYPE_SERVICE :: int
  VPN_TYPE_OEM_LEGACY :: int

section \<open>Networks\<close>

datatype network_type = Physical | Virtual | Local | Unreachable | Dummy

type_synonym uid_range = "nat \<times> nat"

text \<open>
  Modelled from the spec: the Network classes (Network.h, PhysicalNetwork.h,
  VirtualNetwork.h, ...) are absent. A network carries its variant, its netId, its
  interfaces, a permission, the default flag and the local flag of a physical network, the
  secure and excludeLocalRoutes flags of a virtual one, its uid ranges per subPriority and
  its allowlist.
\<close>

record network =
  mType :: network_type
  mNetId :: nat
  mInterfaces :: "string list"
  mPermission :: nat
  mIsDefault :: bool
  mSecure :: bool
  mLocal :: bool
  mExcludeLocalRoutes :: bool
  mUidRangeMap :: "(int \<times> uid_range list) list"
  mAllowedUids :: "uid_range list"

definition getNetId :: "network \<Rightarrow> nat" where
  "getNetId n = mNetId n"

definition isPhysical :: "network \<Rightarrow> bool" where
  "isPhysical n = (mType n = Physical)"

definition isVirtual :: "network \<Rightarrow> bool" where
  "isVirtual n = (mType n = Virtual)"

definition isUnreachable :: "network \<Rightarrow> bool" where
  "isUnreachable n = (mType n = Unreachable)"

definition isSecure :: "network \<Rightarrow> bool" where
  "isSecure n = mSecure n"

definition getPermission :: "network \<Rightarrow> nat" where
  "getPermission n = mPermission n"

text \<open>Modelled from the spec: a uid belongs to a collection of inclusive intervals.\<close>

definition hasUid :: "uid_range list \<Rightarrow> nat \<Rightarrow> bool" where
  "hasUid ranges uid = list_ex (\<lambda>(start, stop). start \<le> uid \<and> uid \<le> stop) ranges"

text \<open>
  Modelled from the spec: appliesToUser(uid, &subPriority) is true iff a range containing
  uid is attached, and writes the winning (numerically smallest) subPriority. The result
  is \<open>Some subPriority\<close> for true and \<open>None\<close> for false.
\<close>

definition appliesToUser :: "network \<Rightarrow> nat \<Rightarrow> int option" where
  "appliesToUser n uid =
     (let ps = map fst (filter (\<lambda>(sp, ranges). hasUid ranges uid) (mUidRangeMap n))
      in if ps = [] then None else Some (min_list ps))"

text \<open>Modelled from the spec: an empty allowlist means that all uids are allowed.\<close>

definition isUidAllowed :: "network \<Rightarrow> nat \<Rightarrow> bool" where
  "isUidAllowed n uid = (mAllowedUids n = [] \<or> hasUid (mAllowedUids n) uid)"

text \<open>Modelled from the spec: a newly constructed network has no interfaces, no uid
  ranges, an empty allowlist, permission NONE and cleared flags.\<close>

definition newNetwork :: "network_type \<Rightarrow> nat \<Rightarrow> network" where
  "newNetwork t netId =
     \<lparr>mType = t, mNetId = netId, mInterfaces = [], mPermission = PERMISSION_NONE,
      mIsDefault = False, mSecure = False, mLocal = False, mExcludeLocalRoutes = False,
      mUidRangeMap = [], mAllowedUids = []\<rparr>"

section \<open>The environment\<close>

datatype table_type = LOCAL_NETWORK | LEGACY_SYSTEM | LEGACY_NETWORK | INTERFACE

datatype route_operation = ROUTE_ADD | ROUTE_UPDATE | ROUTE_REMOVE

text \<open>
  The calls that leave the registry: the methods of the Network classes that touch the
  kernel, the RouteController, the traffic-control cleanup and the TCP socket monitor.
  Their code is absent; what each returns is given by the environment, a function from
  the call to its return code, and the registry keeps the calls it made, in order.
\<close>

datatype kcall =
    KTcQdiscDelDevClsact nat
  | KAddInterface nat string
  | KRemoveInterface nat string
  | KClearInterfaces nat
  | KAddUsers nat "uid_range list" int
  | KRemoveUsers nat "uid_range list" int
  | KSetPermission nat nat
  | KAddAsDefault nat
  | KRemoveAsDefault nat
  | KAddVirtualNetworkFallthrough nat string nat
  | KRemoveVirtualNetworkFallthrough nat string nat
  | KGetIfIndex string
  | KRoute route_operation string string string table_type int
  | KResumePolling
  | KSuspendPolling

type_synonym kernel = "kcall \<Rightarrow> int"

section \<open>Methods of the networks\<close>

text \<open>
  Modelled from the spec: the methods of the Network classes are absent. A method that
  mutates kernel state returns the environment's code; it changes the network only when
  that code is 0 (clearInterfaces is best-effort and always empties the set).
\<close>

definition hasInterface :: "network \<Rightarrow> string \<Rightarrow> bool" where
  "hasInterface n iface = (iface \<in> set (mInterfaces n))"

definition getInterfaces :: "network \<Rightarrow> string list" where
  "getInterfaces n = mInterfaces n"

definition canAddUsers :: "network \<Rightarrow> bool" where
  "canAddUsers n = (mType n = Physical \<or> mType n = Virtual \<or> mType n = Unreachable)"

definition addInterface :: "kernel \<Rightarrow> string \<Rightarrow> network \<Rightarrow> int \<times> network" where
  "addInterface k iface n =
     (let ret = k (KAddInterface (mNetId n) iface) in
      if ret \<noteq> 0 then (ret, n)
      else (0, n\<lparr>mInterfaces :=
                   (if iface \<in> set (mInterfaces n) then mInterfaces n
                    else mInterfaces n @ [iface])\<rparr>))"

definition removeInterface :: "kernel \<Rightarrow> string \<Rightarrow> network \<Rightarrow> int \<times> network" where
  "removeInterface k iface n =
     (let ret = k (KRemoveInterface (mNetId n) iface) in
      if ret \<noteq> 0 then (ret, n)
      else (0, n\<lparr>mInterfaces := removeAll iface (mInterfaces n)\<rparr>))"

definition clearInterfaces :: "kernel \<Rightarrow> network \<Rightarrow> int \<times> network" where
  "clearInterfaces k n = (k (KClearInterfaces (mNetId n)), n\<lparr>mInterfaces := []\<rparr>)"

definition addRanges ::
  "int \<Rightarrow> uid_range list \<Rightarrow> (int \<times> uid_range list) list \<Rightarrow> (int \<times> uid_range list) list" where
  "addRanges subPriority ranges m =
     (case map_of m subPriority of
        None \<Rightarrow> m @ [(subPriority, ranges)]
      | Some _ \<Rightarrow> map (\<lambda>(p, rs). if p = subPriority then (p, rs @ ranges) else (p, rs)) m)"

definition removeRanges ::
  "int \<Rightarrow> uid_range list \<Rightarrow> (int \<times> uid_range list) list \<Rightarrow> (int \<times> uid_range list) list" where
  "removeRanges subPriority ranges m =
     filter (\<lambda>(p, rs). rs \<noteq> [])
       (map (\<lambda>(p, rs). if p = subPriority then (p, filter (\<lambda>r. r \<notin> set ranges) rs) else (p, rs))
          m)"

definition addUsers :: "kernel \<Rightarrow> uid_range list \<Rightarrow> int \<Rightarrow> network \<Rightarrow> int \<times> network" where
  "addUsers k uidRanges subPriority n =
     (let ret = k (KAddUsers (mNetId n) uidRanges subPriority) in
      if ret \<noteq> 0 then (ret, n)
      else (0, n\<lparr>mUidRangeMap := addRanges subPriority uidRanges (mUidRangeMap n)\<rparr>))"

definition removeUsers :: "kernel \<Rightarrow> uid_range list \<Rightarrow> int \<Rightarrow> network \<Rightarrow> int \<times> network" where
  "removeUsers k uidRanges subPriority n =
     (let ret = k (KRemoveUsers (mNetId n) uidRanges subPriority) in
      if ret \<noteq> 0 then (ret, n)
      else (0, n\<lparr>mUidRangeMap := removeRanges subPriority uidRanges (mUidRangeMap n)\<rparr>))"

text \<open>
  Modelled from the spec and from the callers' comments in NetworkController.cpp:
  setPermission and removeAsDefault work interface by interface and cannot fail on a
  network without interfaces.
\<close>

definition setPermission :: "kernel \<Rightarrow> nat \<Rightarrow> network \<Rightarrow> int \<times> network" where
  "setPermission k permission n =
     (let ret = (if mInterfaces n = [] then 0 else k (KSetPermission (mNetId n) permission)) in
      if ret \<noteq> 0 then (ret, n) else (0, n\<lparr>mPermission := permission\<rparr>))"

definition addAsDefault :: "kernel \<Rightarrow> network \<Rightarrow> int \<times> network" where
  "addAsDefault k n =
     (let ret = k (KAddAsDefault (mNetId n)) in
      if ret \<noteq> 0 then (ret, n) else (0, n\<lparr>mIsDefault := True\<rparr>))"

definition removeAsDefault :: "kernel \<Rightarrow> network \<Rightarrow> int \<times> network" where
  "removeAsDefault k n =
     (let ret = (if mInterfaces n = [] then 0 else k (KRemoveAsDefault (mNetId n))) in
      if ret \<noteq> 0 then (ret, n) else (0, n\<lparr>mIsDefault := False\<rparr>))"

text \<open>Modelled from the spec: the allowlist is replaced, or emptied.\<close>

definition setAllowedUids :: "uid_range list \<Rightarrow> network \<Rightarrow> network" where
  "setAllowedUids uidRanges n = n\<lparr>mAllowedUids := uidRanges\<rparr>"

definition clearAllowedUids :: "network \<Rightarrow> network" where
  "clearAllowedUids n = n\<lparr>mAllowedUids := []\<rparr>"

definition newPhysicalNetwork :: "nat \<Rightarrow> bool \<Rightarrow> network" where
  "newPhysicalNetwork netId local = (newNetwork Physical netId)\<lparr>mLocal := local\<rparr>"

definition newVirtualNetwork :: "nat \<Rightarrow> bool \<Rightarrow> bool \<Rightarrow> network" where
  "newVirtualNetwork netId secure excludeLocalRoutes =
     (newNetwork Virtual netId)\<lparr>mSecure := secure, mExcludeLocalRoutes := excludeLocalRoutes\<rparr>"

section \<open>Registry state\<close>

text \<open>
  mNetworks is a std::map: its entries are kept as an association list in iteration
  order (ascending netId). mIfindexToLastNetId and mUsers are only looked up by key; the
  unordered set of ifindices of an address is a list, whose order stands for the iteration
  order of the set. kernelCalls lists the calls that left the registry, oldest first.
\<close>

record controller =
  mNetworks :: "(nat \<times> network) list"
  mDefaultNetId :: nat
  mUsers :: "nat \<rightharpoonup> nat"
  mProtectableUsers :: "(nat \<times> nat) set"
  mIfindexToLastNetId :: "nat \<rightharpoonup> nat"
  mAddressToIfindices :: "string \<rightharpoonup> nat list"
  kernelCalls :: "kcall list"

definition getNetworkLocked :: "controller \<Rightarrow> nat \<Rightarrow> network option" where
  "getNetworkLocked s netId = map_of (mNetworks s) netId"

definition isValidNetworkLocked :: "controller \<Rightarrow> nat \<Rightarrow> bool" where
  "isValidNetworkLocked s netId = (getNetworkLocked s netId \<noteq> None)"

definition isVirtualNetworkLocked :: "controller \<Rightarrow> nat \<Rightarrow> bool" where
  "isVirtualNetworkLocked s netId =
     (case getNetworkLocked s netId of None \<Rightarrow> False | Some network \<Rightarrow> isVirtual network)"

definition getVirtualNetworkForUserLocked :: "controller \<Rightarrow> nat \<Rightarrow> network option" where
  "getVirtualNetworkForUserLocked s uid =
     map_option snd
       (find (\<lambda>(_, network). isVirtual network \<and> appliesToUser network uid \<noteq> None)
          (mNetworks s))"

text \<open>The loop of getPhysicalOrUnreachableNetworkForUserLocked, with its two locals.\<close>

fun bestNetworkLoop ::
  "nat \<Rightarrow> (nat \<times> network) list \<Rightarrow> network option \<Rightarrow> int \<Rightarrow> network option" where
  "bestNetworkLoop uid [] bestNetwork bestSubPriority = bestNetwork"
| "bestNetworkLoop uid ((netId, network) # rest) bestNetwork bestSubPriority =
     (if \<not> isPhysical network \<and> \<not> isUnreachable network
      then bestNetworkLoop uid rest bestNetwork bestSubPriority
      else case appliesToUser network uid of
        None \<Rightarrow> bestNetworkLoop uid rest bestNetwork bestSubPriority
      | Some subPriority \<Rightarrow>
          if subPriority = SUB_PRIORITY_NO_DEFAULT
          then bestNetworkLoop uid rest bestNetwork bestSubPriority
          else if subPriority < bestSubPriority
          then bestNetworkLoop uid rest (Some network) subPriority
          else bestNetworkLoop uid rest bestNetwork bestSubPriority)"

definition getPhysicalOrUnreachableNetworkForUserLocked ::
  "controller \<Rightarrow> nat \<Rightarrow> network option" where
  "getPhysicalOrUnreachableNetworkForUserLocked s uid =
     bestNetworkLoop uid (mNetworks s) None SUB_PRIORITY_NO_DEFAULT"

definition getPermissionForUserLocked :: "config \<Rightarrow> controller \<Rightarrow> nat \<Rightarrow> nat" where
  "getPermissionForUserLocked c s uid =
     (case mUsers s uid of
        Some p \<Rightarrow> p
      | None \<Rightarrow> if uid < FIRST_APPLICATION_UID c then PERMISSION_SYSTEM c else PERMISSION_NONE)"

definition isProtectableLocked :: "controller \<Rightarrow> nat \<Rightarrow> nat \<Rightarrow> bool" where
  "isProtectableLocked s uid netId =
     ((uid, NETID_UNSET) \<in> mProtectableUsers s \<or> (uid, netId) \<in> mProtectableUsers s)"

definition canProtectLocked :: "config \<Rightarrow> controller \<Rightarrow> nat \<Rightarrow> nat \<Rightarrow> bool" where
  "canProtectLocked c s uid netId =
     (if getPermissionForUserLocked c s uid AND PERMISSION_SYSTEM c = PERMISSION_SYSTEM c
      then True
      else isProtectableLocked s uid netId)"

section \<open>Access control\<close>

definition checkUserNetworkAccessLocked :: "config \<Rightarrow> controller \<Rightarrow> nat \<Rightarrow> nat \<Rightarrow> int" where
  "checkUserNetworkAccessLocked c s uid netId =
     (case getNetworkLocked s netId of
        None \<Rightarrow> - ENONET
      | Some network \<Rightarrow>
          if uid = INVALID_UID c then - EREMOTEIO
          else
            let userPermission = getPermissionForUserLocked c s uid in
            if userPermission AND PERMISSION_SYSTEM c = PERMISSION_SYSTEM c then 0
            else if isVirtual network
            then (if appliesToUser network uid \<noteq> None then 0 else - EPERM)
            else if (case getVirtualNetworkForUserLocked s uid of
                       None \<Rightarrow> False
                     | Some virtualNetwork \<Rightarrow> isSecure virtualNetwork)
                    \<and> \<not> isProtectableLocked s uid netId
            then - EPERM
            else if isPhysical network \<and> appliesToUser network uid \<noteq> None then 0
            else if isUnreachable network
            then (if appliesToUser network uid \<noteq> None then 0 else - EPERM)
            else if \<not> isUidAllowed network uid then - EACCES
            else
              let networkPermission = getPermission network in
              if userPermission AND networkPermission = networkPermission
              then 0 else - EACCES)"

definition checkUserNetworkAccess :: "config \<Rightarrow> controller \<Rightarrow> nat \<Rightarrow> nat \<Rightarrow> int" where
  "checkUserNetworkAccess c s uid netId = checkUserNetworkAccessLocked c s uid netId"

section \<open>Operations of the registry\<close>

definition logCall :: "kcall \<Rightarrow> controller \<Rightarrow> controller" where
  "logCall call s = s\<lparr>kernelCalls := kernelCalls s @ [call]\<rparr>"

text \<open>A call of the environment that returns a value and changes nothing else.\<close>

definition invoke :: "kernel \<Rightarrow> kcall \<Rightarrow> controller \<Rightarrow> int \<times> controller" where
  "invoke k call s = (k call, logCall call s)"

text \<open>The registry holds pointers: a method that mutates a network mutates the entry
  of the map in place.\<close>

definition setNetwork :: "nat \<Rightarrow> network \<Rightarrow> controller \<Rightarrow> controller" where
  "setNetwork netId n s =
     s\<lparr>mNetworks :=
         map (\<lambda>(key, old). if key = netId then (key, n) else (key, old)) (mNetworks s)\<rparr>"

definition callOn :: "nat \<Rightarrow> kcall \<Rightarrow> int \<times> network \<Rightarrow> controller \<Rightarrow> int \<times> controller" where
  "callOn netId call result s = (fst result, logCall call (setNetwork netId (snd result) s))"

text \<open>\<open>mNetworks[netId] = network\<close> and \<open>mNetworks.erase(netId)\<close> on the ordered map.\<close>

fun mapInsert :: "nat \<Rightarrow> network \<Rightarrow> (nat \<times> network) list \<Rightarrow> (nat \<times> network) list" where
  "mapInsert netId n [] = [(netId, n)]"
| "mapInsert netId n ((key, v) # rest) =
     (if netId < key then (netId, n) # (key, v) # rest
      else if netId = key then (netId, n) # rest
      else (key, v) # mapInsert netId n rest)"

definition mapErase :: "nat \<Rightarrow> (nat \<times> network) list \<Rightarrow> (nat \<times> network) list" where
  "mapErase netId m = filter (\<lambda>(key, _). key \<noteq> netId) m"

text \<open>The constructor. \<open>ifIndices\<close> are the indices if_nametoindex gives for the
  interfaces of the system (0 for none).\<close>

definition NetworkController :: "config \<Rightarrow> nat list \<Rightarrow> controller" where
  "NetworkController c ifIndices =
     \<lparr>mNetworks =
        mapInsert (UNREACHABLE_NET_ID c) (newNetwork Unreachable (UNREACHABLE_NET_ID c))
          (mapInsert (DUMMY_NET_ID c) (newNetwork Dummy (DUMMY_NET_ID c))
             (mapInsert (LOCAL_NET_ID c) (newNetwork Local (LOCAL_NET_ID c)) [])),
      mDefaultNetId = NETID_UNSET,
      mUsers = Map.empty,
      mProtectableUsers = {(AID_VPN c, NETID_UNSET)},
      mIfindexToLastNetId = Map.empty,
      mAddressToIfindices = Map.empty,
      kernelCalls = map KTcQdiscDelDevClsact (filter (\<lambda>ifIndex. ifIndex \<noteq> 0) ifIndices)\<rparr>"


definition setDefaultNetwork :: "kernel \<Rightarrow> nat \<Rightarrow> controller \<Rightarrow> int \<times> controller" where
  "setDefaultNetwork k netId s =
     (if netId = mDefaultNetId s then (0, s)
      else
        case (if netId \<noteq> NETID_UNSET
              then (case getNetworkLocked s netId of
                      None \<Rightarrow> (- ENONET, s)
                    | Some network \<Rightarrow>
                        if \<not> isPhysical network then (- EINVAL, s)
                        else callOn netId (KAddAsDefault netId) (addAsDefault k network) s)
              else (0, s)) of
          (ret, s1) \<Rightarrow>
            if ret \<noteq> 0 then (ret, s1)
            else
              case (if mDefaultNetId s1 \<noteq> NETID_UNSET
                    then (case getNetworkLocked s1 (mDefaultNetId s1) of
                            None \<Rightarrow> (- ESRCH, s1)
                          | Some network \<Rightarrow>
                              if \<not> isPhysical network then (- ESRCH, s1)
                              else callOn (mDefaultNetId s1) (KRemoveAsDefault (mDefaultNetId s1))
                                     (removeAsDefault k network) s1)
                    else (0, s1)) of
                (ret, s2) \<Rightarrow>
                  if ret \<noteq> 0 then (ret, s2) else (0, s2\<lparr>mDefaultNetId := netId\<rparr>))"

section \<open>Network selection\<close>

definition getNetworkForUser :: "controller \<Rightarrow> nat \<Rightarrow> nat" where
  "getNetworkForUser s uid =
     (case getVirtualNetworkForUserLocked s uid of
        Some virtualNetwork \<Rightarrow> getNetId virtualNetwork
      | None \<Rightarrow>
          (case getPhysicalOrUnreachableNetworkForUserLocked s uid of
             Some network \<Rightarrow> getNetId network
           | None \<Rightarrow> mDefaultNetId s))"

definition getNetworkForConnectLocked :: "controller \<Rightarrow> nat \<Rightarrow> nat" where
  "getNetworkForConnectLocked s uid =
     (case getPhysicalOrUnreachableNetworkForUserLocked s uid of
        Some network \<Rightarrow> getNetId network
      | None \<Rightarrow> mDefaultNetId s)"

definition getNetworkForConnect :: "controller \<Rightarrow> nat \<Rightarrow> nat" where
  "getNetworkForConnect s uid = getNetworkForConnectLocked s uid"

text \<open>
  Modelled from the spec: Fwmark.h is absent. The mark has the fields netId (16 bits),
  explicitlySelected, protectedFromVpn and permission (2 bits); an assignment to a field
  keeps the low bits of the value. A default-constructed mark is all zero. The functions
  that return \<open>fwmark.intValue\<close> return the fields here.
\<close>

record fwmark =
  fwNetId :: "16 word"
  fwExplicitlySelected :: bool
  fwProtectedFromVpn :: bool
  fwPermission :: "2 word"

definition newFwmark :: fwmark where
  "newFwmark =
     \<lparr>fwNetId = 0, fwExplicitlySelected = False, fwProtectedFromVpn = False,
      fwPermission = 0\<rparr>"

text \<open>\<open>resolv_has_nameservers\<close> belongs to the resolver library and is a parameter.
  The result is the mark and the rewritten \<open>*netId\<close>.\<close>

definition getNetworkForDnsLocked ::
  "config \<Rightarrow> (nat \<Rightarrow> bool) \<Rightarrow> controller \<Rightarrow> nat \<Rightarrow> nat \<Rightarrow> fwmark \<times> nat" where
  "getNetworkForDnsLocked c resolv_has_nameservers s netId uid =
     (let fwmark = newFwmark\<lparr>fwProtectedFromVpn := True,
                             fwPermission := of_nat (PERMISSION_SYSTEM c)\<rparr>;
          defaultNetId =
            (case getPhysicalOrUnreachableNetworkForUserLocked s uid of
               Some appDefaultNetwork \<Rightarrow> getNetId appDefaultNetwork
             | None \<Rightarrow> mDefaultNetId s)
      in
        if netId = NETID_UNSET \<and> getVirtualNetworkForUserLocked s uid = None
        then (fwmark\<lparr>fwNetId := of_nat defaultNetId, fwExplicitlySelected := True\<rparr>,
              defaultNetId)
        else if checkUserNetworkAccessLocked c s uid netId = 0
        then
          (let netId' =
                 (if (case getNetworkLocked s netId of
                        None \<Rightarrow> False
                      | Some network \<Rightarrow> isVirtual network)
                     \<and> \<not> resolv_has_nameservers netId
                  then defaultNetId else netId)
           in (fwmark\<lparr>fwExplicitlySelected := True, fwNetId := of_nat netId'\<rparr>, netId'))
        else
          (case getVirtualNetworkForUserLocked s uid of
             None \<Rightarrow> (fwmark\<lparr>fwNetId := of_nat defaultNetId\<rparr>, defaultNetId)
           | Some virtualNetwork \<Rightarrow>
               if resolv_has_nameservers (getNetId virtualNetwork)
               then (fwmark\<lparr>fwExplicitlySelected := True,
                            fwNetId := of_nat (getNetId virtualNetwork)\<rparr>,
                     getNetId virtualNetwork)
               else (fwmark\<lparr>fwNetId := of_nat defaultNetId\<rparr>, defaultNetId)))"

record android_net_context =
  app_netid :: nat
  app_mark :: fwmark
  dns_netid :: nat
  dns_mark :: fwmark
  nc_uid :: nat

definition getNetworkContext ::
  "config \<Rightarrow> (nat \<Rightarrow> bool) \<Rightarrow> controller \<Rightarrow> nat \<Rightarrow> nat \<Rightarrow> android_net_context" where
  "getNetworkContext c resolv_has_nameservers s netId uid =
     (let explicitlySelected = (netId \<noteq> NETID_UNSET);
          appNetId = (if \<not> explicitlySelected then getNetworkForConnectLocked s uid else netId);
          fwmark = newFwmark
            \<lparr>fwNetId := of_nat appNetId,
             fwExplicitlySelected := explicitlySelected,
             fwProtectedFromVpn := (explicitlySelected \<and> canProtectLocked c s uid appNetId),
             fwPermission := of_nat (getPermissionForUserLocked c s uid)\<rparr>;
          dns = getNetworkForDnsLocked c resolv_has_nameservers s netId uid
      in \<lparr>app_netid = appNetId, app_mark = fwmark, dns_netid = snd dns, dns_mark = fst dns,
          nc_uid = uid\<rparr>)"

fun getNetworkForInterfaceLoop :: "string \<Rightarrow> (nat \<times> network) list \<Rightarrow> nat" where
  "getNetworkForInterfaceLoop interface [] = NETID_UNSET"
| "getNetworkForInterfaceLoop interface ((netId, network) # rest) =
     (if hasInterface network interface then netId
      else getNetworkForInterfaceLoop interface rest)"

definition getNetworkForInterfaceLocked :: "controller \<Rightarrow> string \<Rightarrow> nat" where
  "getNetworkForInterfaceLocked s interface =
     getNetworkForInterfaceLoop interface (mNetworks s)"

section \<open>Creating and destroying networks\<close>

definition updateTcpSocketMonitorPolling :: "controller \<Rightarrow> controller" where
  "updateTcpSocketMonitorPolling s =
     (if list_ex (\<lambda>(_, network). isPhysical network \<and> getNetId network \<ge> MIN_NET_ID)
           (mNetworks s)
      then logCall KResumePolling s
      else logCall KSuspendPolling s)"

definition createPhysicalNetworkLocked ::
  "config \<Rightarrow> kernel \<Rightarrow> nat \<Rightarrow> nat \<Rightarrow> bool \<Rightarrow> controller \<Rightarrow> int \<times> controller" where
  "createPhysicalNetworkLocked c k netId permission local s =
     (if \<not> ((MIN_NET_ID \<le> netId \<and> netId \<le> MAX_NET_ID) \<or>
             (MIN_OEM_ID c \<le> netId \<and> netId \<le> MAX_OEM_ID c))
      then (- EINVAL, s)
      else if isValidNetworkLocked s netId then (- EEXIST, s)
      else
        case setPermission k permission (newPhysicalNetwork netId local) of
          (ret, physicalNetwork) \<Rightarrow>
            if ret \<noteq> 0 then (ret, logCall (KSetPermission netId permission) s)
            else
              (0, updateTcpSocketMonitorPolling
                    ((logCall (KSetPermission netId permission) s)
                       \<lparr>mNetworks := mapInsert netId physicalNetwork (mNetworks s)\<rparr>)))"

definition createPhysicalNetwork ::
  "config \<Rightarrow> kernel \<Rightarrow> nat \<Rightarrow> nat \<Rightarrow> bool \<Rightarrow> controller \<Rightarrow> int \<times> controller" where
  "createPhysicalNetwork c k netId permission local s =
     createPhysicalNetworkLocked c k netId permission local s"

text \<open>The scan \<open>for (*pNetId = MIN_OEM_ID; *pNetId <= MAX_OEM_ID; (*pNetId)++)\<close>,
  which stops at the first id that is not registered.\<close>

function oemScan :: "controller \<Rightarrow> nat \<Rightarrow> nat \<Rightarrow> nat" where
  "oemScan s i hi =
     (if i \<le> hi then (if \<not> isValidNetworkLocked s i then i else oemScan s (i + 1) hi) else i)"
  by pat_completeness auto
termination
  by (relation "measure (\<lambda>(s, i, hi). hi + 1 - i)") auto

declare oemScan.simps [simp del]

text \<open>\<open>pNetId\<close> is the pointee of the out-parameter, \<open>None\<close> for a null pointer; the
  result carries the pointee after the call.\<close>

definition createPhysicalOemNetwork ::
  "config \<Rightarrow> kernel \<Rightarrow> nat \<Rightarrow> nat option \<Rightarrow> controller \<Rightarrow> int \<times> nat option \<times> controller" where
  "createPhysicalOemNetwork c k permission pNetId s =
     (case pNetId of
        None \<Rightarrow> (- EINVAL, None, s)
      | Some _ \<Rightarrow>
          let i = oemScan s (MIN_OEM_ID c) (MAX_OEM_ID c) in
          if i > MAX_OEM_ID c then (- ENONET, Some 0, s)
          else
            case createPhysicalNetworkLocked c k i permission False s of
              (ret, s1) \<Rightarrow> (ret, Some (if ret \<noteq> 0 then 0 else i), s1))"

fun fallthroughLoop ::
  "kernel \<Rightarrow> nat \<Rightarrow> nat \<Rightarrow> bool \<Rightarrow> string list \<Rightarrow> controller \<Rightarrow> int \<times> controller" where
  "fallthroughLoop k vpnNetId permission add [] s = (0, s)"
| "fallthroughLoop k vpnNetId permission add (physicalInterface # rest) s =
     (case invoke k
             (if add then KAddVirtualNetworkFallthrough vpnNetId physicalInterface permission
              else KRemoveVirtualNetworkFallthrough vpnNetId physicalInterface permission) s of
        (ret, s1) \<Rightarrow>
          if ret \<noteq> 0 then (ret, s1)
          else fallthroughLoop k vpnNetId permission add rest s1)"

definition modifyFallthroughLocked ::
  "kernel \<Rightarrow> nat \<Rightarrow> bool \<Rightarrow> controller \<Rightarrow> int \<times> controller" where
  "modifyFallthroughLocked k vpnNetId add s =
     (if mDefaultNetId s = NETID_UNSET then (0, s)
      else
        case getNetworkLocked s (mDefaultNetId s) of
          None \<Rightarrow> (- ESRCH, s)
        | Some network \<Rightarrow>
            if \<not> isPhysical network then (- EINVAL, s)
            else fallthroughLoop k vpnNetId (getPermission network) add
                   (getInterfaces network) s)"

definition createVirtualNetwork ::
  "config \<Rightarrow> kernel \<Rightarrow> nat \<Rightarrow> bool \<Rightarrow> int \<Rightarrow> bool \<Rightarrow> controller \<Rightarrow> int \<times> controller" where
  "createVirtualNetwork c k netId secure vpnType excludeLocalRoutes s =
     (if \<not> (MIN_NET_ID \<le> netId \<and> netId \<le> MAX_NET_ID) then (- EINVAL, s)
      else if isValidNetworkLocked s netId then (- EEXIST, s)
      else if vpnType < VPN_TYPE_SERVICE c \<or> VPN_TYPE_OEM_LEGACY c < vpnType
      then (- EINVAL, s)
      else
        case modifyFallthroughLocked k netId True s of
          (ret, s1) \<Rightarrow>
            if ret \<noteq> 0 then (ret, s1)
            else
              (0, s1\<lparr>mNetworks :=
                       mapInsert netId (newVirtualNetwork netId secure excludeLocalRoutes)
                         (mNetworks s1)\<rparr>))"

definition destroyNetwork :: "config \<Rightarrow> kernel \<Rightarrow> nat \<Rightarrow> controller \<Rightarrow> int \<times> controller" where
  "destroyNetwork c k netId s =
     (if netId = LOCAL_NET_ID c \<or> netId = UNREACHABLE_NET_ID c then (- EINVAL, s)
      else
        case getNetworkLocked s netId of
          None \<Rightarrow> (- ENONET, s)
        | Some network \<Rightarrow>
            (case clearInterfaces k network of
               (ret, network1) \<Rightarrow>
                 let s1 = logCall (KClearInterfaces netId) (setNetwork netId network1 s) in
                 (case (if mDefaultNetId s1 = netId
                        then (case callOn netId (KRemoveAsDefault netId)
                                     (removeAsDefault k network1) s1 of
                                (err, s2) \<Rightarrow>
                                  (if ret = 0 then err else ret,
                                   s2\<lparr>mDefaultNetId := NETID_UNSET\<rparr>))
                        else if isVirtual network1
                        then (case modifyFallthroughLocked k netId False s1 of
                                (err, s2) \<Rightarrow> (if ret = 0 then err else ret, s2))
                        else (ret, s1)) of
                    (ret', s3) \<Rightarrow>
                      (ret',
                       updateTcpSocketMonitorPolling
                         (s3\<lparr>mNetworks := mapErase netId (mNetworks s3),
                             mIfindexToLastNetId :=
                               (\<lambda>ifindex. if mIfindexToLastNetId s3 ifindex = Some netId
                                          then None
                                          else mIfindexToLastNetId s3 ifindex)\<rparr>)))))"

section \<open>Interfaces, permissions and users\<close>

text \<open>\<open>getIfIndex\<close> returns an int that becomes the unsigned key of the map.\<close>

definition toUnsigned :: "int \<Rightarrow> nat" where
  "toUnsigned i = nat (i mod 2 ^ 32)"

definition addInterfaceToNetwork ::
  "config \<Rightarrow> kernel \<Rightarrow> nat \<Rightarrow> string \<Rightarrow> controller \<Rightarrow> int \<times> controller" where
  "addInterfaceToNetwork c k netId interface s =
     (case getNetworkLocked s netId of
        None \<Rightarrow> (- ENONET, s)
      | Some network \<Rightarrow>
          let existingNetId = getNetworkForInterfaceLocked s interface in
          if existingNetId \<noteq> NETID_UNSET \<and> existingNetId \<noteq> netId then (- EBUSY, s)
          else
            case callOn netId (KAddInterface netId interface) (addInterface k interface network) s of
              (ret, s1) \<Rightarrow>
                if ret \<noteq> 0 then (ret, s1)
                else if netId \<noteq> LOCAL_NET_ID c
                then
                  (case invoke k (KGetIfIndex interface) s1 of
                     (ifIndex, s2) \<Rightarrow>
                       if ifIndex \<noteq> 0
                       then (0, s2\<lparr>mIfindexToLastNetId :=
                                     (mIfindexToLastNetId s2)(toUnsigned ifIndex \<mapsto> netId)\<rparr>)
                       else (0, s2))
                else (0, s1))"

definition removeInterfaceFromNetwork ::
  "kernel \<Rightarrow> nat \<Rightarrow> string \<Rightarrow> controller \<Rightarrow> int \<times> controller" where
  "removeInterfaceFromNetwork k netId interface s =
     (case getNetworkLocked s netId of
        None \<Rightarrow> (- ENONET, s)
      | Some network \<Rightarrow>
          callOn netId (KRemoveInterface netId interface) (removeInterface k interface network) s)"

definition getPermissionForUser :: "config \<Rightarrow> controller \<Rightarrow> nat \<Rightarrow> nat" where
  "getPermissionForUser c s uid = getPermissionForUserLocked c s uid"

definition setPermissionForUsers :: "nat \<Rightarrow> nat list \<Rightarrow> controller \<Rightarrow> controller" where
  "setPermissionForUsers permission uids s =
     s\<lparr>mUsers := foldl (\<lambda>users uid. users(uid \<mapsto> permission)) (mUsers s) uids\<rparr>"

fun setPermissionForNetworks ::
  "kernel \<Rightarrow> nat \<Rightarrow> nat list \<Rightarrow> controller \<Rightarrow> int \<times> controller" where
  "setPermissionForNetworks k permission [] s = (0, s)"
| "setPermissionForNetworks k permission (netId # netIds) s =
     (case getNetworkLocked s netId of
        None \<Rightarrow> (- ENONET, s)
      | Some network \<Rightarrow>
          if \<not> isPhysical network then (- EINVAL, s)
          else
            case callOn netId (KSetPermission netId permission)
                   (setPermission k permission network) s of
              (ret, s1) \<Rightarrow>
                if ret \<noteq> 0 then (ret, s1)
                else setPermissionForNetworks k permission netIds s1)"

definition isWrongNetworkForUidRanges :: "nat \<Rightarrow> network option \<Rightarrow> int" where
  "isWrongNetworkForUidRanges netId network =
     (case network of
        None \<Rightarrow> - ENONET
      | Some n \<Rightarrow> if \<not> canAddUsers n then - EINVAL else 0)"

definition addUsersToNetwork ::
  "kernel \<Rightarrow> nat \<Rightarrow> uid_range list \<Rightarrow> int \<Rightarrow> controller \<Rightarrow> int \<times> controller" where
  "addUsersToNetwork k netId uidRanges subPriority s =
     (let ret = isWrongNetworkForUidRanges netId (getNetworkLocked s netId) in
      if ret \<noteq> 0 then (ret, s)
      else
        case getNetworkLocked s netId of
          None \<Rightarrow> (ret, s)
        | Some network \<Rightarrow>
            callOn netId (KAddUsers netId uidRanges subPriority)
              (addUsers k uidRanges subPriority network) s)"

definition removeUsersFromNetwork ::
  "kernel \<Rightarrow> nat \<Rightarrow> uid_range list \<Rightarrow> int \<Rightarrow> controller \<Rightarrow> int \<times> controller" where
  "removeUsersFromNetwork k netId uidRanges subPriority s =
     (let ret = isWrongNetworkForUidRanges netId (getNetworkLocked s netId) in
      if ret \<noteq> 0 then (ret, s)
      else
        case getNetworkLocked s netId of
          None \<Rightarrow> (ret, s)
        | Some network \<Rightarrow>
            callOn netId (KRemoveUsers netId uidRanges subPriority)
              (removeUsers k uidRanges subPriority network) s)"

definition modifyRoute ::
  "config \<Rightarrow> kernel \<Rightarrow> nat \<Rightarrow> string \<Rightarrow> string \<Rightarrow> string \<Rightarrow> route_operation \<Rightarrow> bool \<Rightarrow> nat \<Rightarrow> int
     \<Rightarrow> controller \<Rightarrow> int \<times> controller" where
  "modifyRoute c k netId interface destination nexthop op legacy uid mtu s =
     (if \<not> isValidNetworkLocked s netId then (- ENONET, s)
      else
        let existingNetId = getNetworkForInterfaceLocked s interface in
        if existingNetId = NETID_UNSET then (- ENODEV, s)
        else if existingNetId \<noteq> netId then (- ENOENT, s)
        else
          let tableType =
                (if netId = LOCAL_NET_ID c then LOCAL_NETWORK
                 else if legacy
                 then (if getPermissionForUserLocked c s uid AND PERMISSION_SYSTEM c
                            = PERMISSION_SYSTEM c
                       then LEGACY_SYSTEM else LEGACY_NETWORK)
                 else INTERFACE)
          in invoke k (KRoute op interface destination nexthop tableType mtu) s)"

section \<open>Interface addresses\<close>

definition addInterfaceAddress :: "nat \<Rightarrow> string \<Rightarrow> controller \<Rightarrow> controller" where
  "addInterfaceAddress ifIndex address s =
     (if ifIndex = 0 then s
      else
        let ifindices = (case mAddressToIfindices s address of None \<Rightarrow> [] | Some l \<Rightarrow> l) in
        s\<lparr>mAddressToIfindices :=
            (mAddressToIfindices s)
              (address \<mapsto> (if ifIndex \<in> set ifindices then ifindices
                            else ifindices @ [ifIndex]))\<rparr>)"

text \<open>\<open>mIfindexToLastNetId[idx]\<close>: operator[] of the map inserts the value 0 for a key
  that is absent.\<close>

definition lastNetIdAt :: "nat \<Rightarrow> controller \<Rightarrow> nat \<times> controller" where
  "lastNetIdAt idx s =
     (case mIfindexToLastNetId s idx of
        Some netId \<Rightarrow> (netId, s)
      | None \<Rightarrow> (0, s\<lparr>mIfindexToLastNetId := (mIfindexToLastNetId s)(idx \<mapsto> 0)\<rparr>))"

fun handoverLoop :: "nat \<Rightarrow> nat list \<Rightarrow> controller \<Rightarrow> bool \<times> controller" where
  "handoverLoop lastNetId [] s = (True, s)"
| "handoverLoop lastNetId (idx # rest) s =
     (case lastNetIdAt idx s of
        (activeNetId, s1) \<Rightarrow>
          if lastNetId = activeNetId \<and> isVirtualNetworkLocked s1 activeNetId then (False, s1)
          else handoverLoop lastNetId rest s1)"

definition removeInterfaceAddress :: "nat \<Rightarrow> string \<Rightarrow> controller \<Rightarrow> bool \<times> controller" where
  "removeInterfaceAddress ifindex address s =
     (case mAddressToIfindices s address of
        None \<Rightarrow> (True, s)
      | Some ifindices \<Rightarrow>
          if ifindex \<in> set ifindices
          then
            (let remaining = removeAll ifindex ifindices in
             if remaining = []
             then (True, s\<lparr>mAddressToIfindices := (mAddressToIfindices s)(address := None)\<rparr>)
             else
               let s1 = s\<lparr>mAddressToIfindices :=
                            (mAddressToIfindices s)(address \<mapsto> remaining)\<rparr> in
               case mIfindexToLastNetId s1 ifindex of
                 None \<Rightarrow> (True, s1)
               | Some lastNetId \<Rightarrow> handoverLoop lastNetId remaining s1)
          else (True, s))"

section \<open>Protectable users and the allowlist\<close>

definition canProtect :: "config \<Rightarrow> controller \<Rightarrow> nat \<Rightarrow> nat \<Rightarrow> bool" where
  "canProtect c s uid netId = canProtectLocked c s uid netId"

definition allowProtect :: "nat \<Rightarrow> nat \<Rightarrow> controller \<Rightarrow> int \<times> controller" where
  "allowProtect uid netId s =
     (if (uid, netId) \<in> mProtectableUsers s then (- EEXIST, s)
      else (0, s\<lparr>mProtectableUsers := insert (uid, netId) (mProtectableUsers s)\<rparr>))"

definition denyProtect :: "nat \<Rightarrow> nat \<Rightarrow> controller \<Rightarrow> int \<times> controller" where
  "denyProtect uid netId s =
     (if (uid, netId) \<in> mProtectableUsers s
      then (0, s\<lparr>mProtectableUsers := mProtectableUsers s - {(uid, netId)}\<rparr>)
      else (- ENOENT, s))"

definition clearAllowedUidsForAllNetworksLocked :: "controller \<Rightarrow> controller" where
  "clearAllowedUidsForAllNetworksLocked s =
     s\<lparr>mNetworks := map (\<lambda>(netId, network). (netId, clearAllowedUids network)) (mNetworks s)\<rparr>"

text \<open>The second loop of setNetworkAllowlist; a config is a netId with its uid ranges.\<close>

fun applyAllowlist :: "(nat \<times> uid_range list) list \<Rightarrow> controller \<Rightarrow> controller" where
  "applyAllowlist [] s = s"
| "applyAllowlist ((netId, uidRanges) # rangeConfigs) s =
     (case getNetworkLocked s netId of
        None \<Rightarrow> applyAllowlist rangeConfigs s
      | Some network \<Rightarrow>
          applyAllowlist rangeConfigs (setNetwork netId (setAllowedUids uidRanges network) s))"

definition setNetworkAllowlist ::
  "(nat \<times> uid_range list) list \<Rightarrow> controller \<Rightarrow> int \<times> controller" where
  "setNetworkAllowlist rangeConfigs s =
     (if list_ex (\<lambda>(netId, uidRanges). getNetworkLocked s netId = None) rangeConfigs
      then (- ENONET, s)
      else (0, applyAllowlist rangeConfigs (clearAllowedUidsForAllNetworksLocked s)))"

definition NetworkController_isUidAllowed :: "controller \<Rightarrow> nat \<Rightarrow> nat \<Rightarrow> bool" where
  "NetworkController_isUidAllowed s netId uid =
     (if netId = NETID_UNSET \<and> mDefaultNetId s = NETID_UNSET then True
      else (case getNetworkLocked s netId of
              None \<Rightarrow> False
            | Some network \<Rightarrow> isUidAllowed network uid))"

section \<open>Sequences of operations\<close>

text \<open>The operations that take the write lock, with their arguments.\<close>

datatype command =
    SetDefaultNetwork nat
  | CreatePhysicalNetwork nat nat bool
  | CreatePhysicalOemNetwork nat "nat option"
  | CreateVirtualNetwork nat bool int bool
  | DestroyNetwork nat
  | AddInterfaceToNetwork nat string
  | RemoveInterfaceFromNetwork nat string
  | SetPermissionForUsers nat "nat list"
  | SetPermissionForNetworks nat "nat list"
  | AddUsersToNetwork nat "uid_range list" int
  | RemoveUsersFromNetwork nat "uid_range list" int
  | AddInterfaceAddress nat string
  | RemoveInterfaceAddress nat string
  | AllowProtect nat nat
  | DenyProtect nat nat
  | SetNetworkAllowlist "(nat \<times> uid_range list) list"

text \<open>The registry after one operation, in the environment \<open>k\<close>.\<close>

fun exec :: "config \<Rightarrow> kernel \<Rightarrow> command \<Rightarrow> controller \<Rightarrow> controller" where
  "exec c k (SetDefaultNetwork netId) s = snd (setDefaultNetwork k netId s)"
| "exec c k (CreatePhysicalNetwork netId permission local) s =
     snd (createPhysicalNetwork c k netId permission local s)"
| "exec c k (CreatePhysicalOemNetwork permission pNetId) s =
     snd (snd (createPhysicalOemNetwork c k permission pNetId s))"
| "exec c k (CreateVirtualNetwork netId secure vpnType excludeLocalRoutes) s =
     snd (createVirtualNetwork c k netId secure vpnType excludeLocalRoutes s)"
| "exec c k (DestroyNetwork netId) s = snd (destroyNetwork c k netId s)"
| "exec c k (AddInterfaceToNetwork netId interface) s =
     snd (addInterfaceToNetwork c k netId interface s)"
| "exec c k (RemoveInterfaceFromNetwork netId interface) s =
     snd (removeInterfaceFromNetwork k netId interface s)"
| "exec c k (SetPermissionForUsers permission uids) s = setPermissionForUsers permission uids s"
| "exec c k (SetPermissionForNetworks permission netIds) s =
     snd (setPermissionForNetworks k permission netIds s)"
| "exec c k (AddUsersToNetwork netId uidRanges subPriority) s =
     snd (addUsersToNetwork k netId uidRanges subPriority s)"
| "exec c k (RemoveUsersFromNetwork netId uidRanges subPriority) s =
     snd (removeUsersFromNetwork k netId uidRanges subPriority s)"
| "exec c k (AddInterfaceAddress ifIndex address) s = addInterfaceAddress ifIndex address s"
| "exec c k (RemoveInterfaceAddress ifindex address) s =
     snd (removeInterfaceAddress ifindex address s)"
| "exec c k (AllowProtect uid netId) s = snd (allowProtect uid netId s)"
| "exec c k (DenyProtect uid netId) s = snd (denyProtect uid netId s)"
| "exec c k (SetNetworkAllowlist rangeConfigs) s = snd (setNetworkAllowlist rangeConfigs s)"

text \<open>The registry after construction and a sequence of operations, each in its own
  environment.\<close>

definition run :: "config \<Rightarrow> nat list \<Rightarrow> (kernel \<times> command) list \<Rightarrow> controller" where
  "run c ifIndices steps =
     foldl (\<lambda>s (k, cmd). exec c k cmd s) (NetworkController c ifIndices) steps"


section \<open>Controllers.cpp: the child chains of the built-in hooks\<close>

datatype IptablesTarget = V4 | V6 | V4V6

text \<open>The newline of the C++ string literals.\<close>

definition NL :: char where
  "NL = CHR 0x0A"

text \<open>CHILD\_CHAIN\_TEMPLATE, the format "-A \%s -j \%s" followed by a newline, printed
  with a parent and a child chain.\<close>

definition CHILD_CHAIN_TEMPLATE :: "string \<Rightarrow> string \<Rightarrow> string" where
  "CHILD_CHAIN_TEMPLATE parentChain childChain =
     ''-A '' @ parentChain @ '' -j '' @ childChain @ [NL]"

text \<open>A search of CHILD\_CHAIN\_REGEX, the extended regular expression
  \<^verbatim>\<open>^-A ([^ ]+) -j ([^ ]+)$\<close>, in one rule: the two groups when the rule matches. Group
  1 is followed by a space and holds none, so it is the longest run without a space after
  "-A "; group 2 is all that follows " -j ", and holds no space.\<close>

definition regex_search :: "string \<Rightarrow> (string \<times> string) option" where
  "regex_search rule =
     (if take 3 rule = ''-A '' then
        let m1 = takeWhile (\<lambda>ch. ch \<noteq> CHR '' '') (drop 3 rule);
            rest = dropWhile (\<lambda>ch. ch \<noteq> CHR '' '') (drop 3 rule);
            m2 = drop 4 rest
        in if m1 \<noteq> [] \<and> take 4 rest = '' -j '' \<and> m2 \<noteq> [] \<and> CHR '' '' \<notin> set m2
           then Some (m1, m2) else None
      else None)"

text \<open>The rules that the loop \<^verbatim>\<open>while (std::getline(stream, rule, '\n'))\<close> reads from
  the output: the pieces between newlines, without a last empty piece.\<close>

fun getlines :: "string \<Rightarrow> string list" where
  "getlines [] = []"
| "getlines (ch # s) =
     (if ch = NL then [] # getlines s
      else (case getlines s of
              [] \<Rightarrow> [[ch]]
            | rule # rules \<Rightarrow> (ch # rule) # rules))"

text \<open>execIptablesRestoreWithOutput: the return code and the output of a command on a
  target, given by the environment.\<close>

type_synonym restore_with_output = "IptablesTarget \<Rightarrow> string \<Rightarrow> int \<times> string"

fun existingLoop :: "string \<Rightarrow> string list \<Rightarrow> string set \<Rightarrow> string set" where
  "existingLoop parentChain [] existing = existing"
| "existingLoop parentChain (rule # rules) existing =
     existingLoop parentChain rules
       (case regex_search rule of
          Some (m1, m2) \<Rightarrow> if m1 = parentChain then insert m2 existing else existing
        | None \<Rightarrow> existing)"

text \<open>findExistingChildChains; None is abort().\<close>

definition findExistingChildChains ::
  "restore_with_output \<Rightarrow> IptablesTarget \<Rightarrow> string \<Rightarrow> string \<Rightarrow> string set option" where
  "findExistingChildChains execIptablesRestoreWithOutput target table parentChain =
     (if target = V4V6 then None
      else
        let command = ''*'' @ table @ [NL] @ ''-S '' @ parentChain @ [NL] @ ''COMMIT'' @ [NL];
            (rc, output) = execIptablesRestoreWithOutput target command
        in if rc = - 1 then Some {}
           else Some (existingLoop parentChain (getlines output) {}))"

fun childLoop :: "string \<Rightarrow> string set \<Rightarrow> string list \<Rightarrow> string \<Rightarrow> string" where
  "childLoop parentChain existingChildChains [] command = command"
| "childLoop parentChain existingChildChains (childChain # childChains) command =
     childLoop parentChain existingChildChains childChains
       (let command = command @ '':'' @ childChain @ '' -'' @ [NL]
        in if childChain \<notin> existingChildChains
           then command @ CHILD_CHAIN_TEMPLATE parentChain childChain
           else command)"

text \<open>createChildChains: the target and the command that it passes to
  execIptablesRestore; None when findExistingChildChains aborts.\<close>

definition createChildChains ::
  "restore_with_output \<Rightarrow> IptablesTarget \<Rightarrow> string \<Rightarrow> string \<Rightarrow> string list \<Rightarrow> bool \<Rightarrow>
     (IptablesTarget \<times> string) option" where
  "createChildChains execIptablesRestoreWithOutput target table parentChain childChains
       exclusive =
     (let command = ''*'' @ table @ [NL]
      in case (if exclusive
               then Some (command @ '':'' @ parentChain @ '' -'' @ [NL]
                            @ ''-F '' @ parentChain @ [NL], {})
               else map_option (Pair command)
                      (findExistingChildChains execIptablesRestoreWithOutput target table
                         parentChain)) of
           None \<Rightarrow> None
         | Some (command, existingChildChains) \<Rightarrow>
             Some (target,
               childLoop parentChain existingChildChains childChains command
                 @ ''COMMIT'' @ [NL]))"

section \<open>The access decision list of the specification\<close>

text \<open>The error kinds of the specification, as the integer codes that stand for them.\<close>

definition NO_NETWORK :: int where "NO_NETWORK = - ENONET"
definition REMOTE_IO :: int where "REMOTE_IO = - EREMOTEIO"
definition PERMISSION_DENIED :: int where "PERMISSION_DENIED = - EPERM"
definition ACCESS_DENIED :: int where "ACCESS_DENIED = - EACCES"

text \<open>Applies-to-user: the network has a uid range, at some subPriority, that contains
  the uid.\<close>

definition appliesTo :: "network \<Rightarrow> nat \<Rightarrow> bool" where
  "appliesTo n uid =
     (\<exists>(subPriority, ranges) \<in> set (mUidRangeMap n).
        \<exists>(start, stop) \<in> set ranges. start \<le> uid \<and> uid \<le> stop)"

definition vpnApplies :: "nat \<Rightarrow> nat \<times> network \<Rightarrow> bool" where
  "vpnApplies uid e = (mType (snd e) = Virtual \<and> appliesTo (snd e) uid)"

text \<open>Step 5 as the specification words it: some secure VPN applies to the uid.\<close>

definition secureVpnApplies :: "controller \<Rightarrow> nat \<Rightarrow> bool" where
  "secureVpnApplies s uid =
     (\<exists>(netId, n) \<in> set (mNetworks s). mType n = Virtual \<and> mSecure n \<and> appliesTo n uid)"

text \<open>Step 5 on the first VPN, in the iteration order of the registry, that applies to
  the uid: that VPN is secure.\<close>

definition firstVpnIsSecure :: "controller \<Rightarrow> nat \<Rightarrow> bool" where
  "firstVpnIsSecure s uid =
     (\<exists>i < length (mNetworks s).
        vpnApplies uid (mNetworks s ! i) \<and> mSecure (snd (mNetworks s ! i)) \<and>
        (\<forall>j < i. \<not> vpnApplies uid (mNetworks s ! j)))"

text \<open>At most one Virtual network applies to the uid, as the specification requires of
  a configuration.\<close>

definition atMostOneVpn :: "controller \<Rightarrow> nat \<Rightarrow> bool" where
  "atMostOneVpn s uid = (length (filter (vpnApplies uid) (mNetworks s)) \<le> 1)"

text \<open>
  The nine steps, as a relation between the inputs and the returned code \<open>r\<close>; the rule
  of step 5 is a parameter. Step 7 fixes only whether the code is 0.
\<close>

definition accessDecisionList ::
  "(controller \<Rightarrow> nat \<Rightarrow> bool) \<Rightarrow> config \<Rightarrow> controller \<Rightarrow> nat \<Rightarrow> nat \<Rightarrow> int \<Rightarrow> bool" where
  "accessDecisionList vpnRule c s uid netId r =
     (case map_of (mNetworks s) netId of
        None \<Rightarrow> r = NO_NETWORK
      | Some network \<Rightarrow>
          if uid = INVALID_UID c then r = REMOTE_IO
          else if getPermissionForUserLocked c s uid AND PERMISSION_SYSTEM c = PERMISSION_SYSTEM c
          then r = 0
          else if mType network = Virtual
          then r = (if appliesTo network uid then 0 else PERMISSION_DENIED)
          else if vpnRule s uid \<and> \<not> isProtectableLocked s uid netId then r = PERMISSION_DENIED
          else if mType network = Physical \<and> appliesTo network uid then r = 0
          else if mType network = Unreachable then (r = 0) = appliesTo network uid
          else if \<not> isUidAllowed network uid then r = ACCESS_DENIED
          else r = (if getPermissionForUserLocked c s uid AND mPermission network
                        = mPermission network
                    then 0 else ACCESS_DENIED))"

section \<open>Example values\<close>

definition exampleConfig :: config where
  "exampleConfig =
     \<lparr>MIN_OEM_ID = 1, MAX_OEM_ID = 50, LOCAL_NET_ID = 99, DUMMY_NET_ID = 51,
      UNREACHABLE_NET_ID = 52, AID_VPN = 1016, FIRST_APPLICATION_UID = 10000,
      INVALID_UID = 4294967295, PERMISSION_NETWORK = 1, PERMISSION_SYSTEM = 3,
      VPN_TYPE_SERVICE = 1, VPN_TYPE_OEM_LEGACY = 5\<rparr>"

definition emptyController :: controller where
  "emptyController =
     \<lparr>mNetworks = [], mDefaultNetId = NETID_UNSET, mUsers = Map.empty,
      mProtectableUsers = {}, mIfindexToLastNetId = Map.empty,
      mAddressToIfindices = Map.empty, kernelCalls = []\<rparr>"

section \<open>Definitions for the properties of setDefaultNetwork\<close>



text \<open>An environment in which every call succeeds.\<close>

definition okKernel :: kernel where
  "okKernel = (\<lambda>_. 0)"

text \<open>Two physical networks, 100 being the default.\<close>

definition physicalController :: controller where
  "physicalController =
     emptyController
       \<lparr>mNetworks :=
          [(100, (newNetwork Physical 100)\<lparr>mIsDefault := True\<rparr>), (101, newNetwork Physical 101)],
        mDefaultNetId := 100\<rparr>"



section \<open>Definitions for the properties of createPhysicalOemNetwork\<close>

text \<open>The error kind EXHAUSTED of the specification; the code reports it with the
  code \<open>- ENONET\<close>, the one NO_NETWORK has.\<close>

definition EXHAUSTED :: int where "EXHAUSTED = - ENONET"

text \<open>A configuration with the OEM range [1, 2], and a registry that fills it.\<close>

definition smallOemConfig :: config where
  "smallOemConfig = exampleConfig\<lparr>MIN_OEM_ID := 1, MAX_OEM_ID := 2\<rparr>"

definition oemController :: controller where
  "oemController =
     emptyController\<lparr>mNetworks := [(1, newNetwork Physical 1), (2, newNetwork Physical 2)]\<rparr>"

section \<open>Definitions for the properties of setNetworkAllowlist\<close>

text \<open>The uid ranges of the last config of the list that names the netId.\<close>

definition listedLast :: "(nat \<times> uid_range list) list \<Rightarrow> nat \<Rightarrow> uid_range list option" where
  "listedLast rangeConfigs netId = map_of (rev rangeConfigs) netId"

text \<open>The claim as worded: every config of the list gives the allowlist of its
  network.\<close>

definition claimedAllowlist :: "(nat \<times> uid_range list) list \<Rightarrow> controller \<Rightarrow> bool" where
  "claimedAllowlist rangeConfigs s =
     (\<forall>(netId, uidRanges) \<in> set rangeConfigs.
        map_option mAllowedUids (getNetworkLocked s netId) = Some uidRanges)"

section \<open>Well-formed registries\<close>

text \<open>What the variant and the netId of the registered networks are, key by key.\<close>

definition shape :: "controller \<Rightarrow> (nat \<times> network_type \<times> nat) list" where
  "shape s = map (\<lambda>(key, n). (key, mType n, mNetId n)) (mNetworks s)"

text \<open>
  The keys of the map ascend strictly; every network sits under its own netId; a
  Virtual network has a netId of [MIN_NET_ID, MAX_NET_ID], a Physical one a netId of
  that range or of the OEM range, the Unreachable one the netId UNREACHABLE; the default
  netId is UNSET or names a Physical network; LOCAL and UNREACHABLE are registered.
\<close>

definition entryOk :: "config \<Rightarrow> nat \<times> network_type \<times> nat \<Rightarrow> bool" where
  "entryOk c e =
     (case e of
        (key, t, netId) \<Rightarrow>
          netId = key \<and>
          (t = Virtual \<longrightarrow> MIN_NET_ID \<le> key \<and> key \<le> MAX_NET_ID) \<and>
          (t = Physical \<longrightarrow>
             (MIN_NET_ID \<le> key \<and> key \<le> MAX_NET_ID) \<or>
             (MIN_OEM_ID c \<le> key \<and> key \<le> MAX_OEM_ID c)) \<and>
          (t = Unreachable \<longrightarrow> key = UNREACHABLE_NET_ID c))"

definition shapeOk :: "config \<Rightarrow> (nat \<times> network_type \<times> nat) list \<Rightarrow> nat \<Rightarrow> bool" where
  "shapeOk c sh defaultNetId =
     (sorted_wrt (<) (map fst sh) \<and>
      (\<forall>e \<in> set sh. entryOk c e) \<and>
      (defaultNetId = NETID_UNSET \<or> (defaultNetId, Physical, defaultNetId) \<in> set sh) \<and>
      LOCAL_NET_ID c \<in> fst ` set sh \<and>
      UNREACHABLE_NET_ID c \<in> fst ` set sh)"

definition wellFormed :: "config \<Rightarrow> controller \<Rightarrow> bool" where
  "wellFormed c s = shapeOk c (shape s) (mDefaultNetId s)"

section \<open>Definitions for the properties of the protectable users\<close>

text \<open>The uid 1016 loses every permission; an entry for the network 100, which is not
  there, is denied.\<close>

definition vpnSteps :: "(kernel \<times> command) list" where
  "vpnSteps =
     [(okKernel, SetPermissionForUsers PERMISSION_NONE [1016]),
      (okKernel, DenyProtect 1016 100)]"

section \<open>Definitions for the properties of removeInterfaceAddress\<close>

text \<open>What \<open>mIfindexToLastNetId[idx]\<close> reads: 0 for an ifindex without entry.\<close>

definition lastNetIdOr0 :: "controller \<Rightarrow> nat \<Rightarrow> nat" where
  "lastNetIdOr0 s idx = (case mIfindexToLastNetId s idx of None \<Rightarrow> 0 | Some netId \<Rightarrow> netId)"

text \<open>The interfaces tun0 (ifindex 10) and tun1 (ifindex 11) join the virtual network
  101, and the address 2001:db8::1 is recorded on both.\<close>

definition tunKernel :: kernel where
  "tunKernel = (\<lambda>call. case call of
       KGetIfIndex interface \<Rightarrow> (if interface = ''tun0'' then 10 else 11)
     | _ \<Rightarrow> 0)"

definition handoverSteps :: "(kernel \<times> command) list" where
  "handoverSteps =
     [(tunKernel, CreateVirtualNetwork 101 False 1 False),
      (tunKernel, AddInterfaceToNetwork 101 ''tun0''),
      (tunKernel, AddInterfaceToNetwork 101 ''tun1''),
      (tunKernel, AddInterfaceAddress 10 ''2001:db8::1''),
      (tunKernel, AddInterfaceAddress 11 ''2001:db8::1'')]"

definition handoverController :: controller where
  "handoverController =
     emptyController
       \<lparr>mNetworks :=
          [(51, newNetwork Dummy 51), (52, newNetwork Unreachable 52), (99, newNetwork Local 99),
           (101, (newNetwork Virtual 101)\<lparr>mInterfaces := [''tun0'', ''tun1'']\<rparr>)],
        mProtectableUsers := {(1016, 0)},
        mIfindexToLastNetId := [10 \<mapsto> 101, 11 \<mapsto> 101],
        mAddressToIfindices := [''2001:db8::1'' \<mapsto> [10, 11]],
        kernelCalls :=
          [KAddInterface 101 ''tun0'', KGetIfIndex ''tun0'',
           KAddInterface 101 ''tun1'', KGetIfIndex ''tun1'']\<rparr>"

section \<open>Definitions for the properties of the network selection\<close>

text \<open>The subPriority with which a network stands as a default for the uid: that of a
  Physical or the Unreachable network that applies to the uid.\<close>

definition appDefaultCandidate :: "nat \<Rightarrow> network \<Rightarrow> int option" where
  "appDefaultCandidate uid n =
     (if mType n = Physical \<or> mType n = Unreachable then appliesToUser n uid else None)"

text \<open>An entry of the map is an app default of the uid: the network is Physical or
  Unreachable and applies to the uid with a subPriority below SUB_PRIORITY_NO_DEFAULT that
  no applicable Physical or Unreachable network undercuts.\<close>

definition isAppDefault :: "controller \<Rightarrow> nat \<Rightarrow> nat \<times> network \<Rightarrow> bool" where
  "isAppDefault s uid e =
     (e \<in> set (mNetworks s) \<and>
      (\<exists>sp. appDefaultCandidate uid (snd e) = Some sp \<and> sp < SUB_PRIORITY_NO_DEFAULT \<and>
         (\<forall>e' \<in> set (mNetworks s). \<forall>sp'.
            appDefaultCandidate uid (snd e') = Some sp' \<longrightarrow> sp \<le> sp')))"

text \<open>The physical network 100 is the default; the physical network 102 is the app
  default of uid 10002; the VPN 101 applies to uid 10001.\<close>

definition selectionSteps :: "(kernel \<times> command) list" where
  "selectionSteps =
     [(okKernel, CreatePhysicalNetwork 100 0 False),
      (okKernel, SetDefaultNetwork 100),
      (okKernel, CreatePhysicalNetwork 102 0 False),
      (okKernel, AddUsersToNetwork 102 [(10002, 10002)] 5),
      (okKernel, CreateVirtualNetwork 101 False 1 False),
      (okKernel, AddUsersToNetwork 101 [(10001, 10001)] 0)]"

definition selectionController :: controller where
  "selectionController =
     emptyController
       \<lparr>mNetworks :=
          [(51, newNetwork Dummy 51), (52, newNetwork Unreachable 52), (99, newNetwork Local 99),
           (100, (newNetwork Physical 100)\<lparr>mIsDefault := True\<rparr>),
           (101, (newNetwork Virtual 101)\<lparr>mUidRangeMap := [(0, [(10001, 10001)])]\<rparr>),
           (102, (newNetwork Physical 102)\<lparr>mUidRangeMap := [(5, [(10002, 10002)])]\<rparr>)],
        mDefaultNetId := 100,
        mProtectableUsers := {(1016, 0)},
        kernelCalls :=
          [KSetPermission 100 0, KResumePolling, KAddAsDefault 100,
           KSetPermission 102 0, KResumePolling, KAddUsers 102 [(10002, 10002)] 5,
           KAddUsers 101 [(10001, 10001)] 0]\<rparr>"

section \<open>Definitions for the properties of getNetworkForDns\<close>

text \<open>The constants fit the fields of the mark: a netId is a 16-bit handle, a
  permission has 2 bits.\<close>

definition fitsFwmark :: "config \<Rightarrow> bool" where
  "fitsFwmark c =
     (MAX_OEM_ID c < 2 ^ 16 \<and> UNREACHABLE_NET_ID c < 2 ^ 16 \<and> PERMISSION_SYSTEM c < 2 ^ 2)"


section \<open>Definitions for the properties of createChildChains\<close>

text \<open>The lines of the restore format, and the command that lists a chain.\<close>

definition tableLine :: "string \<Rightarrow> string" where
  "tableLine table = ''*'' @ table"

definition createLine :: "string \<Rightarrow> string" where
  "createLine chain = '':'' @ chain @ '' -''"

definition flushLine :: "string \<Rightarrow> string" where
  "flushLine chain = ''-F '' @ chain"

definition linkLine :: "string \<Rightarrow> string \<Rightarrow> string" where
  "linkLine parent child = ''-A '' @ parent @ '' -j '' @ child"

definition listCommand :: "string \<Rightarrow> string \<Rightarrow> string" where
  "listCommand table chain =
     tableLine table @ [NL] @ ''-S '' @ chain @ [NL] @ ''COMMIT'' @ [NL]"

text \<open>A command that deletes a rule (-D) or a chain (-X), and one that flushes (-F).\<close>

definition deleteCommand :: "string \<Rightarrow> bool" where
  "deleteCommand line = (prefix ''-D'' line \<or> prefix ''-X'' line)"

definition flushCommand :: "string \<Rightarrow> bool" where
  "flushCommand line = prefix ''-F'' line"

text \<open>The name of a chain: not empty, with no space and no newline.\<close>

definition chainName :: "string \<Rightarrow> bool" where
  "chainName name = (name \<noteq> [] \<and> CHR '' '' \<notin> set name \<and> NL \<notin> set name)"

text \<open>The lines that a cooperative install writes for its children, given the children
  found linked; and those of an exclusive install.\<close>

definition childLines :: "string \<Rightarrow> string set \<Rightarrow> string list \<Rightarrow> string list" where
  "childLines parent existing children =
     concat (map (\<lambda>child. createLine child #
                    (if child \<notin> existing then [linkLine parent child] else [])) children)"

text \<open>The listing of filter OUTPUT with the link of a vendor and the link of oem\_out.\<close>

definition vendorListing :: restore_with_output where
  "vendorListing target command =
     (0, ''-P OUTPUT ACCEPT'' @ [NL] @ ''-A OUTPUT -j vendor_chain'' @ [NL]
           @ ''-A OUTPUT -j oem_out'' @ [NL])"

text \<open>A listing that fails.\<close>

definition failedListing :: restore_with_output where
  "failedListing target command = (- 1, ''-A OUTPUT -j oem_out'' @ [NL])"

definition outputChildren :: "string list" where
  "outputChildren = [''oem_out'', ''fw_OUTPUT'', ''st_OUTPUT'', ''bw_OUTPUT'']"

section \<open>Definitions for the properties of the access check\<close>

text \<open>The physical network 100 is the default; the secure VPN 101 applies to uid
  10001.\<close>

definition accessSteps :: "(kernel \<times> command) list" where
  "accessSteps =
     [(okKernel, CreatePhysicalNetwork 100 0 False),
      (okKernel, SetDefaultNetwork 100),
      (okKernel, CreateVirtualNetwork 101 True 1 False),
      (okKernel, AddUsersToNetwork 101 [(10001, 10001)] 0)]"

definition accessController :: controller where
  "accessController =
     emptyController
       \<lparr>mNetworks :=
          [(51, newNetwork Dummy 51), (52, newNetwork Unreachable 52), (99, newNetwork Local 99),
           (100, (newNetwork Physical 100)\<lparr>mIsDefault := True\<rparr>),
           (101, (newNetwork Virtual 101)
                   \<lparr>mSecure := True, mUidRangeMap := [(0, [(10001, 10001)])]\<rparr>)],
        mDefaultNetId := 100,
        mProtectableUsers := {(1016, 0)},
        kernelCalls :=
          [KSetPermission 100 0, KResumePolling, KAddAsDefault 100,
           KAddUsers 101 [(10001, 10001)] 0]\<rparr>"

section \<open>Properties of the lookups\<close>

lemma hasUid_iff:
  "hasUid ranges uid = (\<exists>(start, stop) \<in> set ranges. start \<le> uid \<and> uid \<le> stop)"
  by (simp add: hasUid_def list_ex_iff)

lemma appliesToUser_None_iff: "(appliesToUser n uid = None) = (\<not> appliesTo n uid)"
  by (auto simp: appliesToUser_def appliesTo_def hasUid_iff Let_def filter_empty_conv)

lemma appliesToUser_Some_iff: "(appliesToUser n uid \<noteq> None) = appliesTo n uid"
  by (simp add: appliesToUser_None_iff del: not_None_eq)

lemma appliesToUser_ex_iff: "(\<exists>y. appliesToUser n uid = Some y) = appliesTo n uid"
  using appliesToUser_Some_iff [of n uid] by simp

text \<open>What the first match of a search decides, in terms of positions.\<close>

lemma find_first_char:
  "(case find P xs of None \<Rightarrow> False | Some x \<Rightarrow> Q x) =
     (\<exists>i < length xs. P (xs ! i) \<and> Q (xs ! i) \<and> (\<forall>j < i. \<not> P (xs ! j)))"
proof (cases "find P xs")
  case None
  then have "\<forall>i < length xs. \<not> P (xs ! i)"
    by (simp add: find_None_iff)
  with None show ?thesis by auto
next
  case (Some x)
  then obtain i where i: "i < length xs" "xs ! i = x" "P x" "\<forall>j < i. \<not> P (xs ! j)"
    by (auto simp: find_Some_iff)
  have "Q x" if k: "k < length xs" "P (xs ! k)" "Q (xs ! k)" "\<forall>j < k. \<not> P (xs ! j)" for k
  proof -
    have "\<not> k < i" using i k by auto
    moreover have "\<not> i < k" using i k by auto
    ultimately have "k = i" by simp
    with k i show ?thesis by simp
  qed
  moreover have "\<exists>k < length xs. P (xs ! k) \<and> Q (xs ! k) \<and> (\<forall>j < k. \<not> P (xs ! j))" if "Q x"
    using i that by auto
  ultimately show ?thesis using Some by auto
qed

lemma vpn_pred_eq:
  "(\<lambda>(_, network). isVirtual network \<and> appliesToUser network uid \<noteq> None) = vpnApplies uid"
  by (auto simp: fun_eq_iff vpnApplies_def isVirtual_def appliesToUser_ex_iff)

lemma firstVpnIsSecure_code:
  "(case getVirtualNetworkForUserLocked s uid of None \<Rightarrow> False | Some v \<Rightarrow> isSecure v)
     = firstVpnIsSecure s uid"
proof -
  have "(case getVirtualNetworkForUserLocked s uid of None \<Rightarrow> False | Some v \<Rightarrow> isSecure v)
      = (case find (vpnApplies uid) (mNetworks s) of None \<Rightarrow> False | Some e \<Rightarrow> mSecure (snd e))"
    by (simp add: getVirtualNetworkForUserLocked_def vpn_pred_eq isSecure_def
        del: not_None_eq split: option.splits)
  then show ?thesis
    by (simp add: find_first_char firstVpnIsSecure_def)
qed

lemmas example_defs =
  exampleConfig_def emptyController_def newNetwork_def

lemmas lookup_defs =
  getNetworkLocked_def isValidNetworkLocked_def isVirtualNetworkLocked_def
  getVirtualNetworkForUserLocked_def getPhysicalOrUnreachableNetworkForUserLocked_def
  getPermissionForUserLocked_def isProtectableLocked_def canProtectLocked_def
  getNetId_def isPhysical_def isVirtual_def isUnreachable_def isSecure_def getPermission_def
  hasUid_def appliesToUser_def isUidAllowed_def

section \<open>Properties of the registry helpers\<close>

lemma map_of_mapInsert: "map_of (mapInsert netId n m) = (map_of m)(netId \<mapsto> n)"
  by (induction m) (auto simp: fun_eq_iff)

lemma getNetworkLocked_eq: "getNetworkLocked s = map_of (mNetworks s)"
  by (simp add: fun_eq_iff getNetworkLocked_def)

lemma logCall_fields [simp]:
  "mNetworks (logCall call s) = mNetworks s"
  "mDefaultNetId (logCall call s) = mDefaultNetId s"
  "mUsers (logCall call s) = mUsers s"
  "mProtectableUsers (logCall call s) = mProtectableUsers s"
  "mIfindexToLastNetId (logCall call s) = mIfindexToLastNetId s"
  "mAddressToIfindices (logCall call s) = mAddressToIfindices s"
  "kernelCalls (logCall call s) = kernelCalls s @ [call]"
  by (simp_all add: logCall_def)

lemma polling_fields [simp]:
  "mNetworks (updateTcpSocketMonitorPolling s) = mNetworks s"
  "mDefaultNetId (updateTcpSocketMonitorPolling s) = mDefaultNetId s"
  "mUsers (updateTcpSocketMonitorPolling s) = mUsers s"
  "mProtectableUsers (updateTcpSocketMonitorPolling s) = mProtectableUsers s"
  "mIfindexToLastNetId (updateTcpSocketMonitorPolling s) = mIfindexToLastNetId s"
  "mAddressToIfindices (updateTcpSocketMonitorPolling s) = mAddressToIfindices s"
  by (simp_all add: updateTcpSocketMonitorPolling_def)

lemma callOn_simps [simp]:
  "fst (callOn netId call result s) = fst result"
  "mDefaultNetId (snd (callOn netId call result s)) = mDefaultNetId s"
  "kernelCalls (snd (callOn netId call result s)) = kernelCalls s @ [call]"
  "mProtectableUsers (snd (callOn netId call result s)) = mProtectableUsers s"
  "mIfindexToLastNetId (snd (callOn netId call result s)) = mIfindexToLastNetId s"
  by (simp_all add: callOn_def logCall_def setNetwork_def)

lemma getNetworkLocked_setNetwork:
  "getNetworkLocked (setNetwork netId n s) j =
     (if j = netId then map_option (\<lambda>_. n) (getNetworkLocked s j) else getNetworkLocked s j)"
proof -
  have "map_of (map (\<lambda>(key, old). if key = netId then (key, n) else (key, old)) m) j =
     (if j = netId then map_option (\<lambda>_. n) (map_of m j) else map_of m j)" for m
    by (induction m) auto
  then show ?thesis by (simp add: getNetworkLocked_def setNetwork_def)
qed


lemma setDefaultNetwork_default:
  "mDefaultNetId (snd (setDefaultNetwork k netId s)) =
     (if fst (setDefaultNetwork k netId s) = 0 then netId else mDefaultNetId s)"
  by (auto simp: setDefaultNetwork_def split_beta split: option.splits)

section \<open>Properties of well-formed registries\<close>

lemma shape_keys [simp]: "map fst (shape s) = map fst (mNetworks s)"
  by (simp add: shape_def split_beta)

lemma shape_logCall [simp]: "shape (logCall call s) = shape s"
  by (simp add: shape_def)

lemma shape_polling [simp]: "shape (updateTcpSocketMonitorPolling s) = shape s"
  by (simp add: shape_def)

lemma shape_mem: "(key, n) \<in> set (mNetworks s) \<Longrightarrow> (key, mType n, mNetId n) \<in> set (shape s)"
  by (force simp: shape_def)

lemma shape_memD:
  "(key, t, i) \<in> set (shape s) \<Longrightarrow> \<exists>n. (key, n) \<in> set (mNetworks s) \<and> mType n = t \<and> mNetId n = i"
  by (auto simp: shape_def)

lemma sorted_keys_distinct: "sorted_wrt (<) (map fst (m :: (nat \<times> 'a) list)) \<Longrightarrow> distinct (map fst m)"
  by (simp add: strict_sorted_iff)

lemma wellFormed_distinct: "wellFormed c s \<Longrightarrow> distinct (map fst (mNetworks s))"
  by (simp add: wellFormed_def shapeOk_def sorted_keys_distinct)

lemma wellFormed_lookup:
  "wellFormed c s \<Longrightarrow> (getNetworkLocked s key = Some n) = ((key, n) \<in> set (mNetworks s))"
  by (simp add: getNetworkLocked_def wellFormed_distinct)

lemma shape_replace:
  "\<forall>n. (netId, n) \<in> set m \<longrightarrow> mType n = t \<and> mNetId n = i \<Longrightarrow> mType n' = t \<Longrightarrow> mNetId n' = i \<Longrightarrow>
   map (\<lambda>(key, n). (key, mType n, mNetId n))
          (map (\<lambda>(key, old). if key = netId then (key, n') else (key, old)) m)
        = map (\<lambda>(key, n). (key, mType n, mNetId n)) m"
proof (induction m)
  case Nil
  show ?case by simp
next
  case (Cons e m)
  obtain key old where e: "e = (key, old)" by (cases e)
  have ih: "map (\<lambda>(key, n). (key, mType n, mNetId n))
          (map (\<lambda>(key, old). if key = netId then (key, n') else (key, old)) m)
        = map (\<lambda>(key, n). (key, mType n, mNetId n)) m"
    using Cons by simp
  show ?case
  proof (cases "key = netId")
    case True
    then have "mType old = t \<and> mNetId old = i" using Cons.prems(1) e by simp
    with True ih Cons.prems(2,3) e show ?thesis by simp
  next
    case False
    with ih e show ?thesis by simp
  qed
qed


lemma setNetwork_same_shape:
  assumes "\<forall>n. (netId, n) \<in> set (mNetworks s) \<longrightarrow> mType n = mType n' \<and> mNetId n = mNetId n'"
  shows "shape (setNetwork netId n' s) = shape s"
  unfolding shape_def setNetwork_def
  using shape_replace [OF assms refl refl] by simp

lemma wellFormed_setNetwork:
  assumes "wellFormed c s" "getNetworkLocked s netId = Some n"
    "mType n' = mType n" "mNetId n' = mNetId n"
  shows "shape (setNetwork netId n' s) = shape s"
proof (rule setNetwork_same_shape, intro allI impI)
  fix m assume "(netId, m) \<in> set (mNetworks s)"
  then have "getNetworkLocked s netId = Some m"
    using assms(1) by (simp add: wellFormed_lookup)
  then have "m = n" using assms(2) by simp
  then show "mType m = mType n' \<and> mNetId m = mNetId n'"
    using assms(3,4) by simp
qed

lemma setNetwork_fields [simp]:
  "mDefaultNetId (setNetwork netId n s) = mDefaultNetId s"
  "mUsers (setNetwork netId n s) = mUsers s"
  "mProtectableUsers (setNetwork netId n s) = mProtectableUsers s"
  "mIfindexToLastNetId (setNetwork netId n s) = mIfindexToLastNetId s"
  "mAddressToIfindices (setNetwork netId n s) = mAddressToIfindices s"
  "kernelCalls (setNetwork netId n s) = kernelCalls s"
  by (simp_all add: setNetwork_def)

lemma wellFormed_callOn:
  assumes "wellFormed c s" "getNetworkLocked s netId = Some n"
    "mType (snd result) = mType n" "mNetId (snd result) = mNetId n"
  shows "wellFormed c (snd (callOn netId call result s))"
proof -
  have "shape (setNetwork netId (snd result) s) = shape s"
    using assms by (rule wellFormed_setNetwork)
  then have "shape (snd (callOn netId call result s)) = shape s"
    by (simp add: callOn_def)
  moreover have "mDefaultNetId (snd (callOn netId call result s)) = mDefaultNetId s"
    by simp
  ultimately show ?thesis
    using assms(1) unfolding wellFormed_def by simp
qed

lemma method_shape [simp]:
  "mType (snd (addInterface k iface n)) = mType n" "mNetId (snd (addInterface k iface n)) = mNetId n"
  "mType (snd (removeInterface k iface n)) = mType n" "mNetId (snd (removeInterface k iface n)) = mNetId n"
  "mType (snd (clearInterfaces k n)) = mType n" "mNetId (snd (clearInterfaces k n)) = mNetId n"
  "mType (snd (addUsers k uidRanges subPriority n)) = mType n"
  "mNetId (snd (addUsers k uidRanges subPriority n)) = mNetId n"
  "mType (snd (removeUsers k uidRanges subPriority n)) = mType n"
  "mNetId (snd (removeUsers k uidRanges subPriority n)) = mNetId n"
  "mType (snd (setPermission k permission n)) = mType n"
  "mNetId (snd (setPermission k permission n)) = mNetId n"
  "mType (snd (addAsDefault k n)) = mType n" "mNetId (snd (addAsDefault k n)) = mNetId n"
  "mType (snd (removeAsDefault k n)) = mType n" "mNetId (snd (removeAsDefault k n)) = mNetId n"
  "mType (setAllowedUids uidRanges n) = mType n" "mNetId (setAllowedUids uidRanges n) = mNetId n"
  "mType (clearAllowedUids n) = mType n" "mNetId (clearAllowedUids n) = mNetId n"
  by (simp_all add: addInterface_def removeInterface_def clearInterfaces_def addUsers_def
      removeUsers_def setPermission_def addAsDefault_def removeAsDefault_def setAllowedUids_def
      clearAllowedUids_def Let_def)

lemma shape_callOn:
  "distinct (map fst (mNetworks s)) \<Longrightarrow> getNetworkLocked s netId = Some n \<Longrightarrow>
   mType (snd result) = mType n \<Longrightarrow> mNetId (snd result) = mNetId n \<Longrightarrow>
   shape (snd (callOn netId call result s)) = shape s"
proof -
  assume d: "distinct (map fst (mNetworks s))" and l: "getNetworkLocked s netId = Some n"
    and t: "mType (snd result) = mType n" "mNetId (snd result) = mNetId n"
  have "shape (setNetwork netId (snd result) s) = shape s"
  proof (rule setNetwork_same_shape, intro allI impI)
    fix m assume "(netId, m) \<in> set (mNetworks s)"
    then have "getNetworkLocked s netId = Some m"
      using d by (simp add: getNetworkLocked_def)
    then have "m = n" using l by simp
    then show "mType m = mType (snd result) \<and> mNetId m = mNetId (snd result)"
      using t by simp
  qed
  then show ?thesis by (simp add: callOn_def)
qed

lemma shape_updates [simp]:
  "shape (s\<lparr>mDefaultNetId := d\<rparr>) = shape s"
  "shape (s\<lparr>mUsers := u\<rparr>) = shape s"
  "shape (s\<lparr>mProtectableUsers := p\<rparr>) = shape s"
  "shape (s\<lparr>mIfindexToLastNetId := i\<rparr>) = shape s"
  "shape (s\<lparr>mAddressToIfindices := a\<rparr>) = shape s"
  "shape (s\<lparr>kernelCalls := l\<rparr>) = shape s"
  by (simp_all add: shape_def)

lemma invoke_simps [simp]:
  "fst (invoke k call s) = k call"
  "shape (snd (invoke k call s)) = shape s"
  "mNetworks (snd (invoke k call s)) = mNetworks s"
  "mDefaultNetId (snd (invoke k call s)) = mDefaultNetId s"
  "mProtectableUsers (snd (invoke k call s)) = mProtectableUsers s"
  "mIfindexToLastNetId (snd (invoke k call s)) = mIfindexToLastNetId s"
  by (simp_all add: invoke_def)

lemma wellFormed_frame:
  "wellFormed c s \<Longrightarrow> shape s' = shape s \<Longrightarrow> mDefaultNetId s' = mDefaultNetId s \<Longrightarrow>
   wellFormed c s'"
  by (simp add: wellFormed_def)

lemma removeInterfaceFromNetwork_frame:
  assumes "distinct (map fst (mNetworks s))"
  shows "shape (snd (removeInterfaceFromNetwork k netId interface s)) = shape s"
    and "mDefaultNetId (snd (removeInterfaceFromNetwork k netId interface s)) = mDefaultNetId s"
  using assms
  by (simp_all add: removeInterfaceFromNetwork_def shape_callOn split: option.splits)

lemma addInterfaceToNetwork_frame:
  assumes "distinct (map fst (mNetworks s))"
  shows "shape (snd (addInterfaceToNetwork c k netId interface s)) = shape s"
    and "mDefaultNetId (snd (addInterfaceToNetwork c k netId interface s)) = mDefaultNetId s"
  using assms
  by (simp_all add: addInterfaceToNetwork_def shape_callOn Let_def split_beta
      split: option.splits)

lemma addUsersToNetwork_frame:
  assumes "distinct (map fst (mNetworks s))"
  shows "shape (snd (addUsersToNetwork k netId uidRanges subPriority s)) = shape s"
    and "mDefaultNetId (snd (addUsersToNetwork k netId uidRanges subPriority s)) = mDefaultNetId s"
  using assms
  by (simp_all add: addUsersToNetwork_def shape_callOn Let_def split: option.splits)

lemma removeUsersFromNetwork_frame:
  assumes "distinct (map fst (mNetworks s))"
  shows "shape (snd (removeUsersFromNetwork k netId uidRanges subPriority s)) = shape s"
    and "mDefaultNetId (snd (removeUsersFromNetwork k netId uidRanges subPriority s))
      = mDefaultNetId s"
  using assms
  by (simp_all add: removeUsersFromNetwork_def shape_callOn Let_def split: option.splits)

lemma setPermissionForNetworks_frame:
  "distinct (map fst (mNetworks s)) \<Longrightarrow>
   shape (snd (setPermissionForNetworks k permission netIds s)) = shape s \<and>
   mDefaultNetId (snd (setPermissionForNetworks k permission netIds s)) = mDefaultNetId s"
proof (induction netIds arbitrary: s)
  case Nil
  show ?case by simp
next
  case (Cons netId netIds)
  show ?case
  proof (cases "getNetworkLocked s netId")
    case None
    then show ?thesis by simp
  next
    case (Some network)
    let ?r = "callOn netId (KSetPermission netId permission) (setPermission k permission network) s"
    have sh: "shape (snd ?r) = shape s"
      using Cons.prems Some by (simp add: shape_callOn)
    then have "map fst (mNetworks (snd ?r)) = map fst (mNetworks s)"
      by (metis shape_keys)
    then have d: "distinct (map fst (mNetworks (snd ?r)))"
      using Cons.prems by simp
    have ih: "shape (snd (setPermissionForNetworks k permission netIds (snd ?r))) = shape (snd ?r) \<and>
      mDefaultNetId (snd (setPermissionForNetworks k permission netIds (snd ?r)))
        = mDefaultNetId (snd ?r)"
      using Cons.IH [OF d] .
    show ?thesis
      using Some sh ih by (simp add: split_beta)
  qed
qed

lemma simple_frames [simp]:
  "shape (setPermissionForUsers permission uids s) = shape s"
  "mDefaultNetId (setPermissionForUsers permission uids s) = mDefaultNetId s"
  "shape (addInterfaceAddress ifIndex address s) = shape s"
  "mDefaultNetId (addInterfaceAddress ifIndex address s) = mDefaultNetId s"
  "shape (snd (allowProtect uid netId s)) = shape s"
  "mDefaultNetId (snd (allowProtect uid netId s)) = mDefaultNetId s"
  "shape (snd (denyProtect uid netId s)) = shape s"
  "mDefaultNetId (snd (denyProtect uid netId s)) = mDefaultNetId s"
  by (simp_all add: setPermissionForUsers_def addInterfaceAddress_def allowProtect_def
      denyProtect_def Let_def)

lemma lastNetIdAt_frame [simp]:
  "mNetworks (snd (lastNetIdAt idx s)) = mNetworks s"
  "mDefaultNetId (snd (lastNetIdAt idx s)) = mDefaultNetId s"
  "mProtectableUsers (snd (lastNetIdAt idx s)) = mProtectableUsers s"
  by (simp_all add: lastNetIdAt_def split: option.splits)

lemma handoverLoop_frame [simp]:
  "mNetworks (snd (handoverLoop lastNetId ifindices s)) = mNetworks s \<and>
   mDefaultNetId (snd (handoverLoop lastNetId ifindices s)) = mDefaultNetId s \<and>
   mProtectableUsers (snd (handoverLoop lastNetId ifindices s)) = mProtectableUsers s"
  by (induction ifindices arbitrary: s) (simp_all add: split_beta)

lemma removeInterfaceAddress_frame [simp]:
  "mNetworks (snd (removeInterfaceAddress ifindex address s)) = mNetworks s"
  "mDefaultNetId (snd (removeInterfaceAddress ifindex address s)) = mDefaultNetId s"
  "mProtectableUsers (snd (removeInterfaceAddress ifindex address s)) = mProtectableUsers s"
  by (simp_all add: removeInterfaceAddress_def Let_def split: option.splits)

lemma shape_cong: "mNetworks s' = mNetworks s \<Longrightarrow> shape s' = shape s"
  by (simp add: shape_def)

lemma shape_clear [simp]: "shape (clearAllowedUidsForAllNetworksLocked s) = shape s"
  by (simp add: shape_def clearAllowedUidsForAllNetworksLocked_def split_beta)

lemma clear_fields [simp]:
  "mDefaultNetId (clearAllowedUidsForAllNetworksLocked s) = mDefaultNetId s"
  "mProtectableUsers (clearAllowedUidsForAllNetworksLocked s) = mProtectableUsers s"
  by (simp_all add: clearAllowedUidsForAllNetworksLocked_def)

lemma keys_of_shape: "shape s' = shape s \<Longrightarrow> map fst (mNetworks s') = map fst (mNetworks s)"
  by (metis shape_keys)

lemma applyAllowlist_frame:
  "distinct (map fst (mNetworks s)) \<Longrightarrow>
   shape (applyAllowlist rangeConfigs s) = shape s \<and>
   mDefaultNetId (applyAllowlist rangeConfigs s) = mDefaultNetId s \<and>
   mProtectableUsers (applyAllowlist rangeConfigs s) = mProtectableUsers s"
proof (induction rangeConfigs arbitrary: s)
  case Nil
  show ?case by simp
next
  case (Cons config rest)
  obtain netId uidRanges where config: "config = (netId, uidRanges)" by (cases config)
  show ?case
  proof (cases "getNetworkLocked s netId")
    case None
    then show ?thesis using Cons.IH [OF Cons.prems] by (simp add: config)
  next
    case (Some network)
    let ?s1 = "setNetwork netId (setAllowedUids uidRanges network) s"
    have sh: "shape ?s1 = shape s"
    proof (rule setNetwork_same_shape, intro allI impI)
      fix m assume "(netId, m) \<in> set (mNetworks s)"
      then have "getNetworkLocked s netId = Some m"
        using Cons.prems by (simp add: getNetworkLocked_def)
      then have "m = network" using Some by simp
      then show "mType m = mType (setAllowedUids uidRanges network) \<and>
          mNetId m = mNetId (setAllowedUids uidRanges network)"
        by simp
    qed
    then have d: "distinct (map fst (mNetworks ?s1))"
      using Cons.prems keys_of_shape [OF sh] by simp
    show ?thesis
      using Cons.IH [OF d] sh Some by (simp add: config)
  qed
qed

lemma setNetworkAllowlist_frame:
  assumes "distinct (map fst (mNetworks s))"
  shows "shape (snd (setNetworkAllowlist rangeConfigs s)) = shape s"
    and "mDefaultNetId (snd (setNetworkAllowlist rangeConfigs s)) = mDefaultNetId s"
    and "mProtectableUsers (snd (setNetworkAllowlist rangeConfigs s)) = mProtectableUsers s"
proof -
  have d: "distinct (map fst (mNetworks (clearAllowedUidsForAllNetworksLocked s)))"
    using assms keys_of_shape [OF shape_clear, of s] by simp
  show "shape (snd (setNetworkAllowlist rangeConfigs s)) = shape s"
    and "mDefaultNetId (snd (setNetworkAllowlist rangeConfigs s)) = mDefaultNetId s"
    and "mProtectableUsers (snd (setNetworkAllowlist rangeConfigs s)) = mProtectableUsers s"
    using applyAllowlist_frame [OF d, of rangeConfigs]
    by (simp_all add: setNetworkAllowlist_def)
qed

lemma wellFormed_physical:
  "wellFormed c s \<Longrightarrow> getNetworkLocked s netId = Some n \<Longrightarrow> isPhysical n \<Longrightarrow>
   (netId, Physical, netId) \<in> set (shape s)"
proof -
  assume wf: "wellFormed c s" and l: "getNetworkLocked s netId = Some n" and p: "isPhysical n"
  have mem: "(netId, n) \<in> set (mNetworks s)"
    using wf l by (simp add: wellFormed_lookup)
  then have sh: "(netId, mType n, mNetId n) \<in> set (shape s)" by (rule shape_mem)
  then have "entryOk c (netId, mType n, mNetId n)"
    using wf unfolding wellFormed_def shapeOk_def by blast
  then have "mNetId n = netId" by (simp add: entryOk_def)
  with sh p show ?thesis by (simp add: isPhysical_def)
qed

lemma wellFormed_set_default:
  "wellFormed c s \<Longrightarrow> shape s' = shape s \<Longrightarrow>
   d = NETID_UNSET \<or> (d, Physical, d) \<in> set (shape s) \<Longrightarrow>
   wellFormed c (s'\<lparr>mDefaultNetId := d\<rparr>)"
  by (simp add: wellFormed_def shapeOk_def)

lemma keys_setNetwork [simp]:
  "map fst (mNetworks (setNetwork netId n s)) = map fst (mNetworks s)"
  by (simp add: setNetwork_def split_beta comp_def if_distrib cong: if_cong)

lemma keys_callOn [simp]:
  "map fst (mNetworks (snd (callOn netId call result s))) = map fst (mNetworks s)"
  by (simp add: callOn_def)

lemma setDefaultNetwork_shape:
  assumes "distinct (map fst (mNetworks s))"
  shows "shape (snd (setDefaultNetwork k netId s)) = shape s"
  using assms
  by (simp add: setDefaultNetwork_def split_beta shape_callOn split: option.splits)

lemma setDefaultNetwork_target:
  "fst (setDefaultNetwork k netId s) = 0 \<Longrightarrow>
   netId = mDefaultNetId s \<or> netId = NETID_UNSET \<or>
   (\<exists>n. getNetworkLocked s netId = Some n \<and> isPhysical n)"
  by (simp add: setDefaultNetwork_def split_beta errno_defs split: option.splits if_splits)

lemma setDefaultNetwork_wellFormed:
  assumes wf: "wellFormed c s"
  shows "wellFormed c (snd (setDefaultNetwork k netId s))"
proof -
  let ?r = "setDefaultNetwork k netId s"
  have sh: "shape (snd ?r) = shape s"
    using wf by (intro setDefaultNetwork_shape wellFormed_distinct)
  show ?thesis
  proof (cases "fst ?r = 0 \<and> netId \<noteq> mDefaultNetId s")
    case False
    then have "mDefaultNetId (snd ?r) = mDefaultNetId s"
      using setDefaultNetwork_default [of k netId s] by auto
    with wf sh show ?thesis by (rule wellFormed_frame)
  next
    case True
    then have d: "mDefaultNetId (snd ?r) = netId"
      using setDefaultNetwork_default [of k netId s] by simp
    have "netId = NETID_UNSET \<or> (\<exists>n. getNetworkLocked s netId = Some n \<and> isPhysical n)"
      using True setDefaultNetwork_target [of k netId s] by simp
    then have "netId = NETID_UNSET \<or> (netId, Physical, netId) \<in> set (shape s)"
      using wf wellFormed_physical by blast
    then have "wellFormed c ((snd ?r)\<lparr>mDefaultNetId := netId\<rparr>)"
      using wf sh by (intro wellFormed_set_default) 
    moreover have "(snd ?r)\<lparr>mDefaultNetId := netId\<rparr> = snd ?r"
      using d by simp
    ultimately show ?thesis by simp
  qed
qed

lemma mapInsert_new:
  "sorted_wrt (<) (map fst m) \<Longrightarrow> netId \<notin> fst ` set m \<Longrightarrow>
   sorted_wrt (<) (map fst (mapInsert netId n m)) \<and>
   set (mapInsert netId n m) = insert (netId, n) (set m)"
proof (induction m)
  case Nil
  show ?case by simp
next
  case (Cons e m)
  obtain key v where e: "e = (key, v)" by (cases e)
  have ne: "netId \<noteq> key" using Cons.prems(2) e by auto
  show ?case
  proof (cases "netId < key")
    case True
    have "\<forall>y \<in> set (map fst m). key < y" using Cons.prems(1) e by simp
    then have "\<forall>y \<in> set (map fst m). netId < y" using True by auto
    with True Cons.prems(1) e show ?thesis by simp
  next
    case False
    then have lt: "key < netId" using ne by simp
    have ih: "sorted_wrt (<) (map fst (mapInsert netId n m)) \<and>
        set (mapInsert netId n m) = insert (netId, n) (set m)"
      using Cons by (simp add: e)
    have "\<forall>y \<in> set (map fst m). key < y" using Cons.prems(1) e by simp
    then have "\<forall>y \<in> set (map fst (mapInsert netId n m)). key < y"
      using ih lt by auto
    with ih False ne e show ?thesis by auto
  qed
qed

lemma wellFormed_insert:
  assumes wf: "wellFormed c s"
    and new: "getNetworkLocked s netId = None"
    and nets: "mNetworks s' = mapInsert netId n (mNetworks s)"
    and d: "mDefaultNetId s' = mDefaultNetId s"
    and n: "mNetId n = netId"
      "mType n = Virtual \<longrightarrow> MIN_NET_ID \<le> netId \<and> netId \<le> MAX_NET_ID"
      "mType n = Physical \<longrightarrow>
         (MIN_NET_ID \<le> netId \<and> netId \<le> MAX_NET_ID) \<or>
         (MIN_OEM_ID c \<le> netId \<and> netId \<le> MAX_OEM_ID c)"
      "mType n = Unreachable \<longrightarrow> netId = UNREACHABLE_NET_ID c"
  shows "wellFormed c s'"
proof -
  have sorted: "sorted_wrt (<) (map fst (mNetworks s))"
    using wf by (simp add: wellFormed_def shapeOk_def)
  have notin: "netId \<notin> fst ` set (mNetworks s)"
    using new by (simp add: getNetworkLocked_def map_of_eq_None_iff)
  have ins: "sorted_wrt (<) (map fst (mNetworks s'))"
    "set (mNetworks s') = insert (netId, n) (set (mNetworks s))"
    using mapInsert_new [OF sorted notin, of n] nets by simp_all
  have sh: "set (shape s') = insert (netId, mType n, mNetId n) (set (shape s))"
    using ins(2) by (auto simp: shape_def)
  have ok: "shapeOk c (shape s) (mDefaultNetId s)"
    using wf by (simp add: wellFormed_def)
  have e: "entryOk c (netId, mType n, mNetId n)"
    using n by (simp add: entryOk_def)
  have 1: "sorted_wrt (<) (map fst (shape s'))" using ins(1) by simp
  have 2: "\<forall>e \<in> set (shape s'). entryOk c e"
    using ok e unfolding shapeOk_def sh by simp
  have 3: "mDefaultNetId s' = NETID_UNSET \<or>
      (mDefaultNetId s', Physical, mDefaultNetId s') \<in> set (shape s')"
    using ok d unfolding shapeOk_def sh by auto
  have 4: "LOCAL_NET_ID c \<in> fst ` set (shape s')" "UNREACHABLE_NET_ID c \<in> fst ` set (shape s')"
    using ok unfolding shapeOk_def sh by simp_all
  show ?thesis
    unfolding wellFormed_def shapeOk_def using 1 2 3 4 by simp
qed

lemma createPhysicalNetworkLocked_wellFormed:
  assumes wf: "wellFormed c s"
  shows "wellFormed c (snd (createPhysicalNetworkLocked c k netId permission local s))"
proof (cases "((MIN_NET_ID \<le> netId \<and> netId \<le> MAX_NET_ID) \<or>
             (MIN_OEM_ID c \<le> netId \<and> netId \<le> MAX_OEM_ID c)) \<and> \<not> isValidNetworkLocked s netId")
  case False
  then have "snd (createPhysicalNetworkLocked c k netId permission local s) = s"
    by (auto simp: createPhysicalNetworkLocked_def)
  with wf show ?thesis by simp
next
  case True
  let ?n = "snd (setPermission k permission (newPhysicalNetwork netId local))"
  let ?s' = "snd (createPhysicalNetworkLocked c k netId permission local s)"
  have ret: "fst (setPermission k permission (newPhysicalNetwork netId local)) = 0"
    by (simp add: setPermission_def newPhysicalNetwork_def newNetwork_def)
  have nets: "mNetworks ?s' = mapInsert netId ?n (mNetworks s)"
    and d: "mDefaultNetId ?s' = mDefaultNetId s"
    using True ret by (simp_all add: createPhysicalNetworkLocked_def split_beta)
  have new: "getNetworkLocked s netId = None"
    using True by (simp add: isValidNetworkLocked_def)
  have n: "mNetId ?n = netId" "mType ?n = Physical"
    by (simp_all add: newPhysicalNetwork_def newNetwork_def)
  show ?thesis
    using wf new nets d n(1)
  proof (rule wellFormed_insert)
    show "mType ?n = Virtual \<longrightarrow> MIN_NET_ID \<le> netId \<and> netId \<le> MAX_NET_ID"
      using n(2) by simp
    show "mType ?n = Physical \<longrightarrow>
         (MIN_NET_ID \<le> netId \<and> netId \<le> MAX_NET_ID) \<or>
         (MIN_OEM_ID c \<le> netId \<and> netId \<le> MAX_OEM_ID c)"
      using True by simp
    show "mType ?n = Unreachable \<longrightarrow> netId = UNREACHABLE_NET_ID c"
      using n(2) by simp
  qed
qed

lemma createPhysicalOemNetwork_wellFormed:
  assumes wf: "wellFormed c s"
  shows "wellFormed c (snd (snd (createPhysicalOemNetwork c k permission pNetId s)))"
  using wf createPhysicalNetworkLocked_wellFormed [OF wf]
  by (simp add: createPhysicalOemNetwork_def Let_def split_beta split: option.splits)

lemma fallthroughLoop_frame [simp]:
  "mNetworks (snd (fallthroughLoop k vpnNetId permission add ifaces s)) = mNetworks s \<and>
   mDefaultNetId (snd (fallthroughLoop k vpnNetId permission add ifaces s)) = mDefaultNetId s \<and>
   mProtectableUsers (snd (fallthroughLoop k vpnNetId permission add ifaces s))
     = mProtectableUsers s \<and>
   mIfindexToLastNetId (snd (fallthroughLoop k vpnNetId permission add ifaces s))
     = mIfindexToLastNetId s"
  by (induction ifaces arbitrary: s) (simp_all add: split_beta)

lemma modifyFallthroughLocked_frame [simp]:
  "mNetworks (snd (modifyFallthroughLocked k vpnNetId add s)) = mNetworks s"
  "mDefaultNetId (snd (modifyFallthroughLocked k vpnNetId add s)) = mDefaultNetId s"
  "mProtectableUsers (snd (modifyFallthroughLocked k vpnNetId add s)) = mProtectableUsers s"
  "mIfindexToLastNetId (snd (modifyFallthroughLocked k vpnNetId add s)) = mIfindexToLastNetId s"
  by (simp_all add: modifyFallthroughLocked_def split: option.splits)

lemma createVirtualNetwork_wellFormed:
  assumes wf: "wellFormed c s"
  shows "wellFormed c (snd (createVirtualNetwork c k netId secure vpnType excludeLocalRoutes s))"
proof -
  let ?s' = "snd (createVirtualNetwork c k netId secure vpnType excludeLocalRoutes s)"
  let ?n = "newVirtualNetwork netId secure excludeLocalRoutes"
  show ?thesis
  proof (cases "mNetworks ?s' = mNetworks s")
    case True
    have "mDefaultNetId ?s' = mDefaultNetId s"
      by (simp add: createVirtualNetwork_def split_beta)
    with wf shape_cong [OF True] show ?thesis by (rule wellFormed_frame)
  next
    case False
    then have c: "MIN_NET_ID \<le> netId \<and> netId \<le> MAX_NET_ID" "\<not> isValidNetworkLocked s netId"
      "mNetworks ?s' = mapInsert netId ?n (mNetworks s)"
      by (auto simp: createVirtualNetwork_def split_beta split: if_splits)
    have d: "mDefaultNetId ?s' = mDefaultNetId s"
      by (simp add: createVirtualNetwork_def split_beta)
    have new: "getNetworkLocked s netId = None"
      using c(2) by (simp add: isValidNetworkLocked_def)
    have n: "mNetId ?n = netId" "mType ?n = Virtual"
      by (simp_all add: newVirtualNetwork_def newNetwork_def)
    show ?thesis
      using wf new c(3) d n(1)
    proof (rule wellFormed_insert)
      show "mType ?n = Virtual \<longrightarrow> MIN_NET_ID \<le> netId \<and> netId \<le> MAX_NET_ID"
        using c(1) by simp
      show "mType ?n = Physical \<longrightarrow>
         (MIN_NET_ID \<le> netId \<and> netId \<le> MAX_NET_ID) \<or>
         (MIN_OEM_ID c \<le> netId \<and> netId \<le> MAX_OEM_ID c)"
        using n(2) by simp
      show "mType ?n = Unreachable \<longrightarrow> netId = UNREACHABLE_NET_ID c"
        using n(2) by simp
    qed
  qed
qed

lemma shape_mNetworks_update:
  "shape (s\<lparr>mNetworks := m\<rparr>) = map (\<lambda>(key, n). (key, mType n, mNetId n)) m"
  by (simp add: shape_def)

lemma shape_mapErase:
  "map (\<lambda>(key, n). (key, mType n, mNetId n)) (mapErase netId m)
     = filter (\<lambda>e. fst e \<noteq> netId) (map (\<lambda>(key, n). (key, mType n, mNetId n)) m)"
  by (induction m) (auto simp: mapErase_def)

lemma map_fst_filter_key:
  "map fst (filter (\<lambda>e. fst e \<noteq> k) xs) = filter (\<lambda>x. x \<noteq> k) (map fst xs)"
  by (induction xs) auto

lemma wellFormed_erase:
  assumes wf: "wellFormed c s"
    and sh: "shape s' = filter (\<lambda>e. fst e \<noteq> netId) (shape s)"
    and ne: "netId \<noteq> LOCAL_NET_ID c" "netId \<noteq> UNREACHABLE_NET_ID c"
    and d: "mDefaultNetId s' = NETID_UNSET \<or>
            (mDefaultNetId s' = mDefaultNetId s \<and> mDefaultNetId s \<noteq> netId)"
  shows "wellFormed c s'"
proof -
  have ok: "shapeOk c (shape s) (mDefaultNetId s)"
    using wf by (simp add: wellFormed_def)
  have 1: "sorted_wrt (<) (map fst (shape s'))"
  proof -
    have "map fst (shape s') = filter (\<lambda>key. key \<noteq> netId) (map fst (shape s))"
      unfolding sh by (rule map_fst_filter_key)
    moreover have "sorted_wrt (<) (map fst (shape s))"
      using ok by (simp add: shapeOk_def)
    ultimately show ?thesis by (simp add: sorted_wrt_filter del: shape_keys)
  qed
  have 2: "\<forall>e \<in> set (shape s'). entryOk c e"
    using ok unfolding shapeOk_def sh by simp
  have 3: "mDefaultNetId s' = NETID_UNSET \<or>
      (mDefaultNetId s', Physical, mDefaultNetId s') \<in> set (shape s')"
    using ok d unfolding shapeOk_def sh by auto
  have 4: "LOCAL_NET_ID c \<in> fst ` set (shape s')" "UNREACHABLE_NET_ID c \<in> fst ` set (shape s')"
    using ok ne unfolding shapeOk_def sh by force+
  show ?thesis
    unfolding wellFormed_def shapeOk_def using 1 2 3 4 by simp
qed

lemma shape_modifyFallthroughLocked [simp]:
  "shape (snd (modifyFallthroughLocked k vpnNetId add s)) = shape s"
  by (rule shape_cong) simp

lemma destroyNetwork_refused:
  "netId = LOCAL_NET_ID c \<or> netId = UNREACHABLE_NET_ID c \<Longrightarrow>
   destroyNetwork c k netId s = (- EINVAL, s)"
  by (simp add: destroyNetwork_def)

lemma destroyNetwork_unregistered:
  "getNetworkLocked s netId = None \<Longrightarrow> snd (destroyNetwork c k netId s) = s"
  by (simp add: destroyNetwork_def)

lemma destroyNetwork_effect:
  assumes d: "distinct (map fst (mNetworks s))"
    and l: "getNetworkLocked s netId = Some network"
    and ne: "netId \<noteq> LOCAL_NET_ID c" "netId \<noteq> UNREACHABLE_NET_ID c"
  shows "shape (snd (destroyNetwork c k netId s)) = filter (\<lambda>e. fst e \<noteq> netId) (shape s)"
    and "mDefaultNetId (snd (destroyNetwork c k netId s))
           = (if mDefaultNetId s = netId then NETID_UNSET else mDefaultNetId s)"
    and "mProtectableUsers (snd (destroyNetwork c k netId s)) = mProtectableUsers s"
proof -
  define network1 where "network1 = snd (clearInterfaces k network)"
  define ret where "ret = fst (clearInterfaces k network)"
  define s1 where "s1 = logCall (KClearInterfaces netId) (setNetwork netId network1 s)"
  define st where "st =
     (if mDefaultNetId s1 = netId
      then (case callOn netId (KRemoveAsDefault netId) (removeAsDefault k network1) s1 of
              (err, s2) \<Rightarrow> (if ret = 0 then err else ret, s2\<lparr>mDefaultNetId := NETID_UNSET\<rparr>))
      else if isVirtual network1
      then (case modifyFallthroughLocked k netId False s1 of
              (err, s2) \<Rightarrow> (if ret = 0 then err else ret, s2))
      else (ret, s1))"
  have eq: "snd (destroyNetwork c k netId s) =
     updateTcpSocketMonitorPolling
       ((snd st)\<lparr>mNetworks := mapErase netId (mNetworks (snd st)),
                 mIfindexToLastNetId :=
                   (\<lambda>ifindex. if mIfindexToLastNetId (snd st) ifindex = Some netId
                              then None
                              else mIfindexToLastNetId (snd st) ifindex)\<rparr>)"
    using l ne
    by (simp add: destroyNetwork_def split_beta Let_def st_def s1_def network1_def ret_def
        cong del: if_weak_cong)
  have sh1: "shape s1 = shape s"
  proof -
    have "shape (snd (callOn netId (KClearInterfaces netId) (clearInterfaces k network) s)) = shape s"
      using d l by (simp add: shape_callOn)
    then show ?thesis by (simp add: callOn_def s1_def network1_def)
  qed
  have d1: "distinct (map fst (mNetworks s1))"
    using d keys_of_shape [OF sh1] by simp
  have "getNetworkLocked s1 netId = getNetworkLocked (setNetwork netId network1 s) netId"
    by (simp add: s1_def getNetworkLocked_def)
  then have l1: "getNetworkLocked s1 netId = Some network1"
    using l by (simp add: getNetworkLocked_setNetwork)
  have f1: "mDefaultNetId s1 = mDefaultNetId s" "mProtectableUsers s1 = mProtectableUsers s"
    by (simp_all add: s1_def)
  have sh3: "shape (snd st) = shape s1"
    using d1 l1 by (simp add: st_def split_beta shape_callOn)
  have d3: "mDefaultNetId (snd st) = (if mDefaultNetId s = netId then NETID_UNSET else mDefaultNetId s)"
    using f1 by (simp add: st_def split_beta)
  have p3: "mProtectableUsers (snd st) = mProtectableUsers s"
    using f1 by (simp add: st_def split_beta callOn_def)
  show "shape (snd (destroyNetwork c k netId s)) = filter (\<lambda>e. fst e \<noteq> netId) (shape s)"
    using sh3 sh1 by (simp add: eq shape_mNetworks_update shape_mapErase shape_def)
  show "mDefaultNetId (snd (destroyNetwork c k netId s))
           = (if mDefaultNetId s = netId then NETID_UNSET else mDefaultNetId s)"
    using d3 by (simp add: eq)
  show "mProtectableUsers (snd (destroyNetwork c k netId s)) = mProtectableUsers s"
    using p3 by (simp add: eq)
qed

lemma destroyNetwork_wellFormed:
  assumes wf: "wellFormed c s"
  shows "wellFormed c (snd (destroyNetwork c k netId s))"
proof (cases "netId = LOCAL_NET_ID c \<or> netId = UNREACHABLE_NET_ID c")
  case True
  then show ?thesis using wf by (simp add: destroyNetwork_refused)
next
  case False
  then have ne: "netId \<noteq> LOCAL_NET_ID c" "netId \<noteq> UNREACHABLE_NET_ID c" by simp_all
  show ?thesis
  proof (cases "getNetworkLocked s netId")
    case None
    then show ?thesis using wf by (simp add: destroyNetwork_unregistered)
  next
    case (Some network)
    have d: "distinct (map fst (mNetworks s))" using wf by (rule wellFormed_distinct)
    show ?thesis
      using wf destroyNetwork_effect(1) [OF d Some ne, of k]
    proof (rule wellFormed_erase)
      show "netId \<noteq> LOCAL_NET_ID c" by (rule ne(1))
      show "netId \<noteq> UNREACHABLE_NET_ID c" by (rule ne(2))
      show "mDefaultNetId (snd (destroyNetwork c k netId s)) = NETID_UNSET \<or>
            (mDefaultNetId (snd (destroyNetwork c k netId s)) = mDefaultNetId s \<and>
             mDefaultNetId s \<noteq> netId)"
        using destroyNetwork_effect(2) [OF d Some ne, of k] by simp
    qed
  qed
qed

lemma mapInsert_any:
  "sorted_wrt (<) (map fst m) \<Longrightarrow>
   sorted_wrt (<) (map fst (mapInsert netId n m)) \<and>
   set (mapInsert netId n m) = insert (netId, n) {e \<in> set m. fst e \<noteq> netId}"
proof (induction m)
  case Nil
  show ?case by simp
next
  case (Cons e m)
  obtain key v where e: "e = (key, v)" by (cases e)
  have above: "\<forall>y \<in> set m. key < fst y" using Cons.prems e by simp
  have sm: "sorted_wrt (<) (map fst m)" using Cons.prems by simp
  show ?case
  proof (cases "netId < key")
    case True
    then have "\<forall>y \<in> set m. netId < fst y" using above by auto
    then have "{x \<in> set m. fst x \<noteq> netId} = set m" by auto
    with True Cons.prems e above show ?thesis by auto
  next
    case False
    show ?thesis
    proof (cases "netId = key")
      case True
      then have "{x \<in> set m. fst x \<noteq> netId} = set m" using above by auto
      with True Cons.prems e show ?thesis by auto
    next
      case ne: False
      then have lt: "key < netId" using False by simp
      have ih: "sorted_wrt (<) (map fst (mapInsert netId n m)) \<and>
          set (mapInsert netId n m) = insert (netId, n) {e \<in> set m. fst e \<noteq> netId}"
        using Cons.IH [OF sm] .
      then have "\<forall>y \<in> set (mapInsert netId n m). key < fst y"
        using above lt by auto
      with ih False ne e show ?thesis by auto
    qed
  qed
qed

lemma NetworkController_wellFormed: "wellFormed c (NetworkController c ifIndices)"
proof -
  let ?l = "(LOCAL_NET_ID c, newNetwork Local (LOCAL_NET_ID c))"
  let ?d = "(DUMMY_NET_ID c, newNetwork Dummy (DUMMY_NET_ID c))"
  let ?u = "(UNREACHABLE_NET_ID c, newNetwork Unreachable (UNREACHABLE_NET_ID c))"
  let ?m1 = "mapInsert (fst ?l) (snd ?l) []"
  let ?m2 = "mapInsert (fst ?d) (snd ?d) ?m1"
  let ?m3 = "mapInsert (fst ?u) (snd ?u) ?m2"
  let ?s = "NetworkController c ifIndices"
  have m1: "sorted_wrt (<) (map fst ?m1)" "set ?m1 = {?l}" by simp_all
  have m2: "sorted_wrt (<) (map fst ?m2)"
    "set ?m2 = insert ?d {e \<in> set ?m1. fst e \<noteq> fst ?d}"
    using mapInsert_any [OF m1(1), of "fst ?d" "snd ?d"] by simp_all
  have m3: "sorted_wrt (<) (map fst ?m3)"
    "set ?m3 = insert ?u {e \<in> set ?m2. fst e \<noteq> fst ?u}"
    using mapInsert_any [OF m2(1), of "fst ?u" "snd ?u"] by simp_all
  have nets: "mNetworks ?s = ?m3" by (simp add: NetworkController_def)
  have sub: "set ?m3 \<subseteq> {?l, ?d, ?u}"
    unfolding m3(2) m2(2) m1(2) by auto
  have u: "?u \<in> set ?m3" unfolding m3(2) by simp
  have l: "LOCAL_NET_ID c \<in> fst ` set ?m3"
  proof (cases "LOCAL_NET_ID c = UNREACHABLE_NET_ID c")
    case True
    then show ?thesis using u by force
  next
    case nu: False
    show ?thesis
    proof (cases "LOCAL_NET_ID c = DUMMY_NET_ID c")
      case True
      then have "?d \<in> set ?m3" unfolding m3(2) m2(2) using nu by simp
      then show ?thesis using True by force
    next
      case False
      then have "?l \<in> set ?m3" unfolding m3(2) m2(2) m1(2) using nu by simp
      then show ?thesis by force
    qed
  qed
  have 1: "sorted_wrt (<) (map fst (shape ?s))" using m3(1) nets by simp
  have 2: "\<forall>e \<in> set (shape ?s). entryOk c e"
  proof
    fix e assume "e \<in> set (shape ?s)"
    then obtain key n where "(key, n) \<in> set ?m3" and e: "e = (key, mType n, mNetId n)"
      using nets by (auto simp: shape_def)
    then have "(key, n) \<in> {?l, ?d, ?u}" using sub by blast
    then show "entryOk c e"
      unfolding e by (auto simp: entryOk_def newNetwork_def)
  qed
  have 3: "mDefaultNetId ?s = NETID_UNSET" by (simp add: NetworkController_def)
  have 4: "LOCAL_NET_ID c \<in> fst ` set (shape ?s)"
    using l nets by (metis list.set_map shape_keys)
  have 5: "UNREACHABLE_NET_ID c \<in> fst ` set (shape ?s)"
  proof -
    have "UNREACHABLE_NET_ID c \<in> fst ` set ?m3" using u by force
    then show ?thesis using nets by (metis list.set_map shape_keys)
  qed
  show ?thesis
    unfolding wellFormed_def shapeOk_def using 1 2 3 4 5 by simp
qed

lemma exec_wellFormed: "wellFormed c s \<Longrightarrow> wellFormed c (exec c k cmd s)"
proof (cases cmd)
  case (SetDefaultNetwork netId)
  assume "wellFormed c s"
  then show ?thesis unfolding SetDefaultNetwork exec.simps by (rule setDefaultNetwork_wellFormed)
next
  case (CreatePhysicalNetwork netId permission local)
  assume "wellFormed c s"
  then show ?thesis unfolding CreatePhysicalNetwork exec.simps createPhysicalNetwork_def
    by (rule createPhysicalNetworkLocked_wellFormed)
next
  case (CreatePhysicalOemNetwork permission pNetId)
  assume "wellFormed c s"
  then show ?thesis unfolding CreatePhysicalOemNetwork exec.simps
    by (rule createPhysicalOemNetwork_wellFormed)
next
  case (CreateVirtualNetwork netId secure vpnType excludeLocalRoutes)
  assume "wellFormed c s"
  then show ?thesis unfolding CreateVirtualNetwork exec.simps
    by (rule createVirtualNetwork_wellFormed)
next
  case (DestroyNetwork netId)
  assume "wellFormed c s"
  then show ?thesis unfolding DestroyNetwork exec.simps by (rule destroyNetwork_wellFormed)
next
  case (AddInterfaceToNetwork netId interface)
  assume wf: "wellFormed c s"
  show ?thesis unfolding AddInterfaceToNetwork exec.simps
    using wf addInterfaceToNetwork_frame [OF wellFormed_distinct [OF wf]]
    by (rule wellFormed_frame)
next
  case (RemoveInterfaceFromNetwork netId interface)
  assume wf: "wellFormed c s"
  show ?thesis unfolding RemoveInterfaceFromNetwork exec.simps
    using wf removeInterfaceFromNetwork_frame [OF wellFormed_distinct [OF wf]]
    by (rule wellFormed_frame)
next
  case (SetPermissionForUsers permission uids)
  assume wf: "wellFormed c s"
  show ?thesis unfolding SetPermissionForUsers exec.simps
    using wf by (rule wellFormed_frame) simp_all
next
  case (SetPermissionForNetworks permission netIds)
  assume wf: "wellFormed c s"
  have f: "shape (snd (setPermissionForNetworks k permission netIds s)) = shape s"
    "mDefaultNetId (snd (setPermissionForNetworks k permission netIds s)) = mDefaultNetId s"
    using setPermissionForNetworks_frame [OF wellFormed_distinct [OF wf]] by simp_all
  show ?thesis unfolding SetPermissionForNetworks exec.simps
    using wf f by (rule wellFormed_frame)
next
  case (AddUsersToNetwork netId uidRanges subPriority)
  assume wf: "wellFormed c s"
  show ?thesis unfolding AddUsersToNetwork exec.simps
    using wf addUsersToNetwork_frame [OF wellFormed_distinct [OF wf]]
    by (rule wellFormed_frame)
next
  case (RemoveUsersFromNetwork netId uidRanges subPriority)
  assume wf: "wellFormed c s"
  show ?thesis unfolding RemoveUsersFromNetwork exec.simps
    using wf removeUsersFromNetwork_frame [OF wellFormed_distinct [OF wf]]
    by (rule wellFormed_frame)
next
  case (AddInterfaceAddress ifIndex address)
  assume wf: "wellFormed c s"
  show ?thesis unfolding AddInterfaceAddress exec.simps
    using wf by (rule wellFormed_frame) simp_all
next
  case (RemoveInterfaceAddress ifindex address)
  assume wf: "wellFormed c s"
  have "shape (snd (removeInterfaceAddress ifindex address s)) = shape s"
    by (rule shape_cong) simp
  with wf show ?thesis unfolding RemoveInterfaceAddress exec.simps
    by (rule wellFormed_frame) simp
next
  case (AllowProtect uid netId)
  assume wf: "wellFormed c s"
  show ?thesis unfolding AllowProtect exec.simps
    using wf by (rule wellFormed_frame) simp_all
next
  case (DenyProtect uid netId)
  assume wf: "wellFormed c s"
  show ?thesis unfolding DenyProtect exec.simps
    using wf by (rule wellFormed_frame) simp_all
next
  case (SetNetworkAllowlist rangeConfigs)
  assume wf: "wellFormed c s"
  show ?thesis unfolding SetNetworkAllowlist exec.simps
    using wf setNetworkAllowlist_frame(1,2) [OF wellFormed_distinct [OF wf]]
    by (rule wellFormed_frame)
qed

lemma foldl_exec_wellFormed:
  "wellFormed c s \<Longrightarrow> wellFormed c (foldl (\<lambda>s (k, cmd). exec c k cmd s) s steps)"
proof (induction steps arbitrary: s)
  case Nil
  then show ?case by simp
next
  case (Cons step steps)
  obtain k cmd where step: "step = (k, cmd)" by (cases step)
  have "wellFormed c (exec c k cmd s)" using Cons.prems by (rule exec_wellFormed)
  then show ?case using Cons.IH step by simp
qed

lemma run_wellFormed: "wellFormed c (run c ifIndices steps)"
  unfolding run_def by (rule foldl_exec_wellFormed) (rule NetworkController_wellFormed)

lemma isValid_iff: "isValidNetworkLocked s netId = (netId \<in> fst ` set (mNetworks s))"
  by (simp add: isValidNetworkLocked_def getNetworkLocked_def map_of_eq_None_iff)

lemma wellFormed_sentinels:
  "wellFormed c s \<Longrightarrow>
   isValidNetworkLocked s (LOCAL_NET_ID c) \<and> isValidNetworkLocked s (UNREACHABLE_NET_ID c)"
proof -
  assume "wellFormed c s"
  then have "LOCAL_NET_ID c \<in> fst ` set (shape s)" "UNREACHABLE_NET_ID c \<in> fst ` set (shape s)"
    by (simp_all add: wellFormed_def shapeOk_def)
  moreover have "fst ` set (shape s) = fst ` set (mNetworks s)"
    by (metis list.set_map shape_keys)
  ultimately show ?thesis by (simp add: isValid_iff)
qed

lemma NetworkController_sentinels:
  "isValidNetworkLocked (NetworkController c ifIndices) (LOCAL_NET_ID c) \<and>
   isValidNetworkLocked (NetworkController c ifIndices) (DUMMY_NET_ID c) \<and>
   isValidNetworkLocked (NetworkController c ifIndices) (UNREACHABLE_NET_ID c)"
proof -
  let ?s = "NetworkController c ifIndices"
  let ?m1 = "mapInsert (LOCAL_NET_ID c) (newNetwork Local (LOCAL_NET_ID c)) []"
  let ?m2 = "mapInsert (DUMMY_NET_ID c) (newNetwork Dummy (DUMMY_NET_ID c)) ?m1"
  have "getNetworkLocked ?s (DUMMY_NET_ID c) \<noteq> None"
    by (simp add: getNetworkLocked_def NetworkController_def map_of_mapInsert)
  then have "isValidNetworkLocked ?s (DUMMY_NET_ID c)"
    by (simp add: isValidNetworkLocked_def)
  then show ?thesis
    using wellFormed_sentinels [OF NetworkController_wellFormed, of c ifIndices] by simp
qed

lemma NetworkController_example:
  "NetworkController exampleConfig [] =
     emptyController
       \<lparr>mNetworks := [(51, newNetwork Dummy 51), (52, newNetwork Unreachable 52),
                      (99, newNetwork Local 99)],
        mProtectableUsers := {(1016, 0)}\<rparr>"
  by (simp add: NetworkController_def exampleConfig_def emptyController_def NETID_UNSET_def)

lemma wellFormed_unset_not_virtual:
  assumes "wellFormed c s"
  shows "\<not> isVirtualNetworkLocked s NETID_UNSET"
proof
  assume "isVirtualNetworkLocked s NETID_UNSET"
  then obtain n where n: "getNetworkLocked s NETID_UNSET = Some n" "mType n = Virtual"
    by (auto simp: isVirtualNetworkLocked_def isVirtual_def split: option.splits)
  then have "(NETID_UNSET, n) \<in> set (mNetworks s)"
    using assms by (simp add: wellFormed_lookup)
  then have "(NETID_UNSET, mType n, mNetId n) \<in> set (shape s)" by (rule shape_mem)
  then have "entryOk c (NETID_UNSET, mType n, mNetId n)"
    using assms unfolding wellFormed_def shapeOk_def by blast
  then show False
    using n(2) by (simp add: entryOk_def NETID_UNSET_def MIN_NET_ID_def)
qed

section \<open>Properties of the network selection\<close>

lemma bestNetworkLoop_step:
  "bestNetworkLoop uid ((netId, network) # rest) best bestSp =
     (case appDefaultCandidate uid network of
        None \<Rightarrow> bestNetworkLoop uid rest best bestSp
      | Some sp \<Rightarrow>
          if sp \<noteq> SUB_PRIORITY_NO_DEFAULT \<and> sp < bestSp
          then bestNetworkLoop uid rest (Some network) sp
          else bestNetworkLoop uid rest best bestSp)"
  by (simp add: appDefaultCandidate_def isPhysical_def isUnreachable_def split: option.splits)

lemma bestNetworkLoop_spec:
  assumes "bestSp \<le> SUB_PRIORITY_NO_DEFAULT"
  shows
    "(bestNetworkLoop uid nets best bestSp = best \<and>
      (\<forall>e \<in> set nets. \<forall>sp. appDefaultCandidate uid (snd e) = Some sp \<longrightarrow> bestSp \<le> sp))
     \<or>
     (\<exists>e \<in> set nets. \<exists>sp.
        bestNetworkLoop uid nets best bestSp = Some (snd e) \<and>
        appDefaultCandidate uid (snd e) = Some sp \<and> sp < bestSp \<and>
        (\<forall>e' \<in> set nets. \<forall>sp'. appDefaultCandidate uid (snd e') = Some sp' \<longrightarrow> sp \<le> sp'))"
  using assms
proof (induction nets arbitrary: best bestSp)
  case Nil
  show ?case by simp
next
  case (Cons e0 rest)
  obtain k0 n0 where e0: "e0 = (k0, n0)" by (cases e0)
  let ?take = "\<exists>sp. appDefaultCandidate uid n0 = Some sp \<and> sp \<noteq> SUB_PRIORITY_NO_DEFAULT \<and> sp < bestSp"
  show ?case
  proof (cases ?take)
    case False
    then have res: "bestNetworkLoop uid (e0 # rest) best bestSp = bestNetworkLoop uid rest best bestSp"
      unfolding e0 bestNetworkLoop_step by (auto split: option.splits)
    have n0: "\<forall>sp. appDefaultCandidate uid n0 = Some sp \<longrightarrow> bestSp \<le> sp"
      using False Cons.prems by force
    from Cons.IH [OF Cons.prems, of best]
    show ?thesis
    proof
      assume l: "bestNetworkLoop uid rest best bestSp = best \<and>
        (\<forall>e \<in> set rest. \<forall>sp. appDefaultCandidate uid (snd e) = Some sp \<longrightarrow> bestSp \<le> sp)"
      then have "bestNetworkLoop uid (e0 # rest) best bestSp = best \<and>
        (\<forall>e \<in> set (e0 # rest). \<forall>sp. appDefaultCandidate uid (snd e) = Some sp \<longrightarrow> bestSp \<le> sp)"
        using res n0 e0 by simp
      then show ?thesis by (rule disjI1)
    next
      assume "\<exists>e \<in> set rest. \<exists>sp.
        bestNetworkLoop uid rest best bestSp = Some (snd e) \<and>
        appDefaultCandidate uid (snd e) = Some sp \<and> sp < bestSp \<and>
        (\<forall>e' \<in> set rest. \<forall>sp'. appDefaultCandidate uid (snd e') = Some sp' \<longrightarrow> sp \<le> sp')"
      then obtain e sp where e: "e \<in> set rest"
        "bestNetworkLoop uid rest best bestSp = Some (snd e)"
        "appDefaultCandidate uid (snd e) = Some sp" "sp < bestSp"
        "\<forall>e' \<in> set rest. \<forall>sp'. appDefaultCandidate uid (snd e') = Some sp' \<longrightarrow> sp \<le> sp'"
        by blast
      have "\<forall>sp'. appDefaultCandidate uid n0 = Some sp' \<longrightarrow> sp \<le> sp'"
        using n0 e(4) by force
      then have "\<forall>e' \<in> set (e0 # rest). \<forall>sp'. appDefaultCandidate uid (snd e') = Some sp' \<longrightarrow> sp \<le> sp'"
        using e(5) e0 by simp
      moreover have "e \<in> set (e0 # rest)" using e(1) by simp
      moreover have "bestNetworkLoop uid (e0 # rest) best bestSp = Some (snd e)"
        using res e(2) by simp
      ultimately show ?thesis using e(3,4) by blast
    qed
  next
    case True
    then obtain sp0 where sp0: "appDefaultCandidate uid n0 = Some sp0"
      "sp0 \<noteq> SUB_PRIORITY_NO_DEFAULT" "sp0 < bestSp" by blast
    then have res: "bestNetworkLoop uid (e0 # rest) best bestSp = bestNetworkLoop uid rest (Some n0) sp0"
      unfolding e0 bestNetworkLoop_step by simp
    have le: "sp0 \<le> SUB_PRIORITY_NO_DEFAULT" using sp0(3) Cons.prems by simp
    from Cons.IH [OF le, of "Some n0"]
    show ?thesis
    proof
      assume l: "bestNetworkLoop uid rest (Some n0) sp0 = Some n0 \<and>
        (\<forall>e \<in> set rest. \<forall>sp. appDefaultCandidate uid (snd e) = Some sp \<longrightarrow> sp0 \<le> sp)"
      have "\<forall>e' \<in> set (e0 # rest). \<forall>sp'. appDefaultCandidate uid (snd e') = Some sp' \<longrightarrow> sp0 \<le> sp'"
        using l sp0(1) e0 by simp
      moreover have "e0 \<in> set (e0 # rest)" by simp
      moreover have "bestNetworkLoop uid (e0 # rest) best bestSp = Some (snd e0)"
        using res l e0 by simp
      moreover have "appDefaultCandidate uid (snd e0) = Some sp0" using sp0(1) e0 by simp
      ultimately show ?thesis using sp0(3) by blast
    next
      assume "\<exists>e \<in> set rest. \<exists>sp.
        bestNetworkLoop uid rest (Some n0) sp0 = Some (snd e) \<and>
        appDefaultCandidate uid (snd e) = Some sp \<and> sp < sp0 \<and>
        (\<forall>e' \<in> set rest. \<forall>sp'. appDefaultCandidate uid (snd e') = Some sp' \<longrightarrow> sp \<le> sp')"
      then obtain e sp where e: "e \<in> set rest"
        "bestNetworkLoop uid rest (Some n0) sp0 = Some (snd e)"
        "appDefaultCandidate uid (snd e) = Some sp" "sp < sp0"
        "\<forall>e' \<in> set rest. \<forall>sp'. appDefaultCandidate uid (snd e') = Some sp' \<longrightarrow> sp \<le> sp'"
        by blast
      have "\<forall>sp'. appDefaultCandidate uid n0 = Some sp' \<longrightarrow> sp \<le> sp'"
        using sp0(1) e(4) by simp
      then have "\<forall>e' \<in> set (e0 # rest). \<forall>sp'. appDefaultCandidate uid (snd e') = Some sp' \<longrightarrow> sp \<le> sp'"
        using e(5) e0 by simp
      moreover have "e \<in> set (e0 # rest)" using e(1) by simp
      moreover have "bestNetworkLoop uid (e0 # rest) best bestSp = Some (snd e)"
        using res e(2) by simp
      moreover have "sp < bestSp" using e(4) sp0(3) by simp
      ultimately show ?thesis using e(3) by blast
    qed
  qed
qed

lemma appDefault_cases:
  "(getPhysicalOrUnreachableNetworkForUserLocked s uid = None \<and> (\<forall>e. \<not> isAppDefault s uid e))
   \<or> (\<exists>e. isAppDefault s uid e \<and>
          getPhysicalOrUnreachableNetworkForUserLocked s uid = Some (snd e))"
proof -
  from bestNetworkLoop_spec [OF order_refl, of uid "mNetworks s" None]
  show ?thesis
  proof
    assume l: "bestNetworkLoop uid (mNetworks s) None SUB_PRIORITY_NO_DEFAULT = None \<and>
      (\<forall>e \<in> set (mNetworks s). \<forall>sp. appDefaultCandidate uid (snd e) = Some sp \<longrightarrow>
         SUB_PRIORITY_NO_DEFAULT \<le> sp)"
    have "\<not> isAppDefault s uid e" for e
    proof
      assume "isAppDefault s uid e"
      then obtain sp where "e \<in> set (mNetworks s)" "appDefaultCandidate uid (snd e) = Some sp"
        "sp < SUB_PRIORITY_NO_DEFAULT"
        by (auto simp: isAppDefault_def)
      with l show False by force
    qed
    with l show ?thesis
      by (simp add: getPhysicalOrUnreachableNetworkForUserLocked_def)
  next
    assume "\<exists>e \<in> set (mNetworks s). \<exists>sp.
        bestNetworkLoop uid (mNetworks s) None SUB_PRIORITY_NO_DEFAULT = Some (snd e) \<and>
        appDefaultCandidate uid (snd e) = Some sp \<and> sp < SUB_PRIORITY_NO_DEFAULT \<and>
        (\<forall>e' \<in> set (mNetworks s). \<forall>sp'. appDefaultCandidate uid (snd e') = Some sp' \<longrightarrow> sp \<le> sp')"
    then obtain e sp where e: "e \<in> set (mNetworks s)"
      "bestNetworkLoop uid (mNetworks s) None SUB_PRIORITY_NO_DEFAULT = Some (snd e)"
      "appDefaultCandidate uid (snd e) = Some sp" "sp < SUB_PRIORITY_NO_DEFAULT"
      "\<forall>e' \<in> set (mNetworks s). \<forall>sp'. appDefaultCandidate uid (snd e') = Some sp' \<longrightarrow> sp \<le> sp'"
      by blast
    then have "isAppDefault s uid e" unfolding isAppDefault_def by blast
    moreover have "getPhysicalOrUnreachableNetworkForUserLocked s uid = Some (snd e)"
      using e(2) by (simp add: getPhysicalOrUnreachableNetworkForUserLocked_def)
    ultimately show ?thesis by blast
  qed
qed

lemma wellFormed_netId:
  assumes "wellFormed c s" "e \<in> set (mNetworks s)"
  shows "getNetId (snd e) = fst e" and "getNetworkLocked s (fst e) = Some (snd e)"
proof -
  obtain key n where e: "e = (key, n)" by (cases e)
  then have "(key, mType n, mNetId n) \<in> set (shape s)" using assms(2) by (simp add: shape_mem)
  then have "entryOk c (key, mType n, mNetId n)"
    using assms(1) unfolding wellFormed_def shapeOk_def by blast
  then show "getNetId (snd e) = fst e" by (simp add: entryOk_def e getNetId_def)
  show "getNetworkLocked s (fst e) = Some (snd e)"
    using assms e by (simp add: wellFormed_lookup)
qed

lemma find_least_key:
  "sorted_wrt (<) (map fst xs) \<Longrightarrow> find P xs = Some x \<Longrightarrow>
   x \<in> set xs \<and> P x \<and> (\<forall>y \<in> set xs. P y \<longrightarrow> fst x \<le> (fst y :: nat))"
proof (induction xs)
  case Nil
  then show ?case by simp
next
  case (Cons a xs)
  show ?case
  proof (cases "P a")
    case True
    then have "x = a" using Cons.prems(2) by simp
    moreover have "\<forall>y \<in> set xs. fst a < fst y" using Cons.prems(1) by simp
    ultimately show ?thesis using True by (auto intro: less_imp_le)
  next
    case False
    then have "find P xs = Some x" using Cons.prems(2) by simp
    moreover have "sorted_wrt (<) (map fst xs)" using Cons.prems(1) by simp
    ultimately have "x \<in> set xs \<and> P x \<and> (\<forall>y \<in> set xs. P y \<longrightarrow> fst x \<le> fst y)"
      using Cons.IH by simp
    with False show ?thesis by auto
  qed
qed

lemma vpn_cases:
  assumes "wellFormed c s"
  shows "(getVirtualNetworkForUserLocked s uid = None \<and> (\<forall>e \<in> set (mNetworks s). \<not> vpnApplies uid e))
   \<or> (\<exists>e \<in> set (mNetworks s). vpnApplies uid e \<and>
          (\<forall>e' \<in> set (mNetworks s). vpnApplies uid e' \<longrightarrow> fst e \<le> fst e') \<and>
          getVirtualNetworkForUserLocked s uid = Some (snd e))"
proof (cases "find (vpnApplies uid) (mNetworks s)")
  case None
  then have "getVirtualNetworkForUserLocked s uid = None"
    unfolding getVirtualNetworkForUserLocked_def vpn_pred_eq by simp
  moreover have "\<forall>e \<in> set (mNetworks s). \<not> vpnApplies uid e"
    using None by (auto simp: find_None_iff)
  ultimately show ?thesis by blast
next
  case (Some e)
  have "sorted_wrt (<) (map fst (mNetworks s))"
    using assms by (simp add: wellFormed_def shapeOk_def)
  from find_least_key [OF this Some]
  have e: "e \<in> set (mNetworks s)" "vpnApplies uid e"
    "\<forall>e' \<in> set (mNetworks s). vpnApplies uid e' \<longrightarrow> fst e \<le> fst e'"
    by simp_all
  have "getVirtualNetworkForUserLocked s uid = Some (snd e)"
    unfolding getVirtualNetworkForUserLocked_def vpn_pred_eq using Some by simp
  with e show ?thesis by blast
qed

lemma wellFormed_default_not_virtual:
  assumes "wellFormed c s"
  shows "\<not> isVirtualNetworkLocked s (mDefaultNetId s)"
proof (cases "mDefaultNetId s = NETID_UNSET")
  case True
  then show ?thesis using wellFormed_unset_not_virtual [OF assms] by simp
next
  case False
  then have "(mDefaultNetId s, Physical, mDefaultNetId s) \<in> set (shape s)"
    using assms by (simp add: wellFormed_def shapeOk_def)
  then obtain n where n: "(mDefaultNetId s, n) \<in> set (mNetworks s)" "mType n = Physical"
    using shape_memD by blast
  then have "getNetworkLocked s (mDefaultNetId s) = Some n"
    using assms by (simp add: wellFormed_lookup)
  with n(2) show ?thesis by (simp add: isVirtualNetworkLocked_def isVirtual_def)
qed

lemma appDefault_not_virtual:
  assumes "wellFormed c s" "isAppDefault s uid e"
  shows "\<not> isVirtualNetworkLocked s (fst e)"
proof -
  have mem: "e \<in> set (mNetworks s)" using assms(2) by (simp add: isAppDefault_def)
  have "mType (snd e) \<noteq> Virtual"
    using assms(2) by (auto simp: isAppDefault_def appDefaultCandidate_def split: if_splits)
  then show ?thesis
    using wellFormed_netId(2) [OF assms(1) mem]
    by (simp add: isVirtualNetworkLocked_def isVirtual_def)
qed

lemma network_selection:
  assumes wf: "wellFormed c s"
  shows
  "((\<exists>e \<in> set (mNetworks s). vpnApplies uid e) \<longrightarrow>
      (\<exists>e \<in> set (mNetworks s). vpnApplies uid e \<and>
         (\<forall>e' \<in> set (mNetworks s). vpnApplies uid e' \<longrightarrow> fst e \<le> fst e') \<and>
         getNetworkForUser s uid = fst e)) \<and>
   (\<not> (\<exists>e \<in> set (mNetworks s). vpnApplies uid e) \<longrightarrow>
      getNetworkForUser s uid = getNetworkForConnect s uid) \<and>
   ((\<exists>e. isAppDefault s uid e) \<longrightarrow>
      (\<exists>e. isAppDefault s uid e \<and> getNetworkForConnect s uid = fst e)) \<and>
   (\<not> (\<exists>e. isAppDefault s uid e) \<longrightarrow> getNetworkForConnect s uid = mDefaultNetId s) \<and>
   \<not> isVirtualNetworkLocked s (getNetworkForConnect s uid)"
proof (intro conjI impI)
  assume "\<exists>e \<in> set (mNetworks s). vpnApplies uid e"
  with vpn_cases [OF wf, of uid] obtain e where e: "e \<in> set (mNetworks s)" "vpnApplies uid e"
    "\<forall>e' \<in> set (mNetworks s). vpnApplies uid e' \<longrightarrow> fst e \<le> fst e'"
    "getVirtualNetworkForUserLocked s uid = Some (snd e)"
    by blast
  have "getNetworkForUser s uid = fst e"
    using e(4) wellFormed_netId(1) [OF wf e(1)] by (simp add: getNetworkForUser_def)
  with e show "\<exists>e \<in> set (mNetworks s). vpnApplies uid e \<and>
         (\<forall>e' \<in> set (mNetworks s). vpnApplies uid e' \<longrightarrow> fst e \<le> fst e') \<and>
         getNetworkForUser s uid = fst e"
    by blast
next
  assume "\<not> (\<exists>e \<in> set (mNetworks s). vpnApplies uid e)"
  with vpn_cases [OF wf, of uid] have "getVirtualNetworkForUserLocked s uid = None"
    by blast
  then show "getNetworkForUser s uid = getNetworkForConnect s uid"
    by (simp add: getNetworkForUser_def getNetworkForConnect_def getNetworkForConnectLocked_def)
next
  assume "\<exists>e. isAppDefault s uid e"
  with appDefault_cases [of s uid] obtain e where e: "isAppDefault s uid e"
    "getPhysicalOrUnreachableNetworkForUserLocked s uid = Some (snd e)"
    by blast
  have "e \<in> set (mNetworks s)" using e(1) by (simp add: isAppDefault_def)
  then have "getNetworkForConnect s uid = fst e"
    using e(2) wellFormed_netId(1) [OF wf]
    by (simp add: getNetworkForConnect_def getNetworkForConnectLocked_def)
  with e(1) show "\<exists>e. isAppDefault s uid e \<and> getNetworkForConnect s uid = fst e"
    by blast
next
  assume "\<not> (\<exists>e. isAppDefault s uid e)"
  with appDefault_cases [of s uid]
  have "getPhysicalOrUnreachableNetworkForUserLocked s uid = None" by blast
  then show "getNetworkForConnect s uid = mDefaultNetId s"
    by (simp add: getNetworkForConnect_def getNetworkForConnectLocked_def)
next
  from appDefault_cases [of s uid]
  show "\<not> isVirtualNetworkLocked s (getNetworkForConnect s uid)"
  proof
    assume "getPhysicalOrUnreachableNetworkForUserLocked s uid = None \<and>
      (\<forall>e. \<not> isAppDefault s uid e)"
    then have "getNetworkForConnect s uid = mDefaultNetId s"
      by (simp add: getNetworkForConnect_def getNetworkForConnectLocked_def)
    then show ?thesis using wellFormed_default_not_virtual [OF wf] by simp
  next
    assume "\<exists>e. isAppDefault s uid e \<and>
      getPhysicalOrUnreachableNetworkForUserLocked s uid = Some (snd e)"
    then obtain e where e: "isAppDefault s uid e"
      "getPhysicalOrUnreachableNetworkForUserLocked s uid = Some (snd e)"
      by blast
    have "e \<in> set (mNetworks s)" using e(1) by (simp add: isAppDefault_def)
    then have "getNetworkForConnect s uid = fst e"
      using e(2) wellFormed_netId(1) [OF wf]
      by (simp add: getNetworkForConnect_def getNetworkForConnectLocked_def)
    then show ?thesis using appDefault_not_virtual [OF wf e(1)] by simp
  qed
qed

lemma selection_reached: "run exampleConfig [] selectionSteps = selectionController"
  unfolding run_def selectionSteps_def NetworkController_example
  by (simp add: selectionController_def emptyController_def exampleConfig_def okKernel_def
      createPhysicalNetwork_def createPhysicalNetworkLocked_def
      createVirtualNetwork_def MIN_NET_ID_def MAX_NET_ID_def isValidNetworkLocked_def
      getNetworkLocked_def modifyFallthroughLocked_def NETID_UNSET_def newVirtualNetwork_def
      newPhysicalNetwork_def newNetwork_def setPermission_def updateTcpSocketMonitorPolling_def
      isPhysical_def getNetId_def getInterfaces_def getPermission_def
      setDefaultNetwork_def addAsDefault_def
      addUsersToNetwork_def isWrongNetworkForUidRanges_def canAddUsers_def addUsers_def
      addRanges_def
      callOn_def logCall_def setNetwork_def invoke_def PERMISSION_NONE_def)

lemma selection_lookups:
  "getNetworkForUser selectionController 10001 = 101"
  "getNetworkForConnect selectionController 10001 = 100"
  "getNetworkForUser selectionController 10002 = 102"
  "getNetworkForConnect selectionController 10002 = 102"
  by (simp_all add: getNetworkForUser_def getNetworkForConnect_def
      getNetworkForConnectLocked_def selectionController_def emptyController_def
      newNetwork_def lookup_defs SUB_PRIORITY_NO_DEFAULT_def)


section \<open>The child chains: the lines of a command\<close>

lemma getlines_line: "NL \<notin> set l \<Longrightarrow> getlines (l @ NL # s) = l # getlines s"
  by (induction l) auto

lemma getlines_unlines:
  "\<forall>l \<in> set ls. NL \<notin> set l \<Longrightarrow> getlines (concat (map (\<lambda>l. l @ [NL]) ls)) = ls"
  by (induction ls) (simp_all add: getlines_line)

lemma childLoop_lines:
  "childLoop parent existing children command =
     command @ concat (map (\<lambda>l. l @ [NL]) (childLines parent existing children))"
  by (induction children arbitrary: command)
     (simp_all add: childLines_def CHILD_CHAIN_TEMPLATE_def createLine_def linkLine_def)

lemma regex_search_iff:
  "regex_search rule = Some (m1, m2) \<longleftrightarrow>
     rule = ''-A '' @ m1 @ '' -j '' @ m2 \<and> m1 \<noteq> [] \<and> CHR '' '' \<notin> set m1 \<and>
     m2 \<noteq> [] \<and> CHR '' '' \<notin> set m2"
proof
  let ?P = "\<lambda>ch. ch \<noteq> CHR '' ''"
  assume a: "regex_search rule = Some (m1, m2)"
  let ?rest = "dropWhile ?P (drop 3 rule)"
  from a have t: "take 3 rule = ''-A ''"
    by (simp add: regex_search_def split: if_splits)
  from a t have m1: "m1 = takeWhile ?P (drop 3 rule)" and m2: "m2 = drop 4 ?rest"
    and ne: "m1 \<noteq> []" "m2 \<noteq> []" "CHR '' '' \<notin> set m2" and j: "take 4 ?rest = '' -j ''"
    by (auto simp add: regex_search_def Let_def split: if_splits)
  have "rule = take 3 rule @ drop 3 rule" by simp
  also have "drop 3 rule = m1 @ ?rest" unfolding m1 by simp
  also have "?rest = take 4 ?rest @ drop 4 ?rest" by simp
  finally have "rule = ''-A '' @ m1 @ '' -j '' @ m2" using t j m2 by simp
  moreover have "CHR '' '' \<notin> set m1" unfolding m1 by (auto dest: set_takeWhileD)
  ultimately show "rule = ''-A '' @ m1 @ '' -j '' @ m2 \<and> m1 \<noteq> [] \<and> CHR '' '' \<notin> set m1 \<and>
     m2 \<noteq> [] \<and> CHR '' '' \<notin> set m2" using ne by simp
next
  let ?P = "\<lambda>ch. ch \<noteq> CHR '' ''"
  assume a: "rule = ''-A '' @ m1 @ '' -j '' @ m2 \<and> m1 \<noteq> [] \<and> CHR '' '' \<notin> set m1 \<and>
     m2 \<noteq> [] \<and> CHR '' '' \<notin> set m2"
  then have d: "drop 3 rule = m1 @ CHR '' '' # ''-j '' @ m2" by simp
  from a have p: "\<forall>x \<in> set m1. ?P x" by auto
  have tw: "takeWhile ?P (drop 3 rule) = m1"
    unfolding d using p by simp
  have dw: "dropWhile ?P (drop 3 rule) = '' -j '' @ m2"
    unfolding d using p by simp
  from a have t: "take 3 rule = ''-A ''" by simp
  show "regex_search rule = Some (m1, m2)"
    unfolding regex_search_def tw dw using a t by simp
qed

lemma existingLoop_set:
  "existingLoop parent rules existing =
     existing \<union> {m2. \<exists>rule \<in> set rules. regex_search rule = Some (parent, m2)}"
proof (induction rules arbitrary: existing)
  case Nil
  show ?case by simp
next
  case (Cons rule rules)
  show ?case
    unfolding existingLoop.simps Cons.IH
    by (cases "regex_search rule") (auto split: if_splits)
qed

lemma existing_iff:
  assumes "chainName parent" and "chainName child"
  shows "child \<in> existingLoop parent rules {} \<longleftrightarrow> linkLine parent child \<in> set rules"
  using assms unfolding existingLoop_set regex_search_iff linkLine_def chainName_def
  by auto

lemma set_childLines:
  "set (childLines parent existing children) =
     createLine ` set children \<union> linkLine parent ` {child \<in> set children. child \<notin> existing}"
  unfolding childLines_def by (induction children) auto

lemma NL_chars:
  "NL \<noteq> CHR ''*''" "NL \<noteq> CHR '':''" "NL \<noteq> CHR '' ''" "NL \<noteq> CHR ''-''"
  "NL \<noteq> CHR ''A''" "NL \<noteq> CHR ''F''" "NL \<noteq> CHR ''j''" "NL \<notin> set ''COMMIT''"
  by (simp_all add: NL_def)

lemma line_no_NL:
  "NL \<notin> set table \<Longrightarrow> NL \<notin> set (tableLine table)"
  "chainName chain \<Longrightarrow> NL \<notin> set (createLine chain)"
  "chainName chain \<Longrightarrow> NL \<notin> set (flushLine chain)"
  "chainName parent \<Longrightarrow> chainName child \<Longrightarrow> NL \<notin> set (linkLine parent child)"
  using NL_chars
  by (auto simp add: tableLine_def createLine_def flushLine_def linkLine_def chainName_def)

lemma childLines_no_NL:
  assumes "chainName parent" and "\<forall>child \<in> set children. chainName child"
  shows "\<forall>l \<in> set (childLines parent existing children). NL \<notin> set l"
  using assms unfolding set_childLines by (auto simp add: line_no_NL)

text \<open>The children that a cooperative install finds linked.\<close>

lemma findExistingChildChains_eq:
  "target \<noteq> V4V6 \<Longrightarrow>
   findExistingChildChains restore target table parent =
     Some (if fst (restore target (listCommand table parent)) = - 1 then {}
           else existingLoop parent (getlines (snd (restore target (listCommand table parent)))) {})"
  by (simp add: findExistingChildChains_def listCommand_def tableLine_def Let_def
      split: prod.splits)

lemma exclusive_command:
  "createChildChains restore target table parent children True =
     Some (target, concat (map (\<lambda>l. l @ [NL])
       (tableLine table # createLine parent # flushLine parent #
          childLines parent {} children @ [''COMMIT''])))"
  by (simp add: createChildChains_def childLoop_lines tableLine_def createLine_def
      flushLine_def)

lemma cooperative_command:
  "findExistingChildChains restore target table parent = Some existing \<Longrightarrow>
   createChildChains restore target table parent children False =
     Some (target, concat (map (\<lambda>l. l @ [NL])
       (tableLine table # childLines parent existing children @ [''COMMIT''])))"
  by (simp add: createChildChains_def childLoop_lines tableLine_def)

lemma exclusive_lines:
  assumes "NL \<notin> set table" and "chainName parent" and "\<forall>child \<in> set children. chainName child"
  shows "getlines (concat (map (\<lambda>l. l @ [NL])
       (tableLine table # createLine parent # flushLine parent #
          childLines parent {} children @ [''COMMIT'']))) =
     tableLine table # createLine parent # flushLine parent #
          childLines parent {} children @ [''COMMIT'']"
  using assms childLines_no_NL [OF assms(2,3), of "{}"] NL_chars(8)
  by (intro getlines_unlines) (auto simp add: line_no_NL)

lemma cooperative_lines:
  assumes "NL \<notin> set table" and "chainName parent" and "\<forall>child \<in> set children. chainName child"
  shows "getlines (concat (map (\<lambda>l. l @ [NL])
       (tableLine table # childLines parent existing children @ [''COMMIT'']))) =
     tableLine table # childLines parent existing children @ [''COMMIT'']"
  using assms childLines_no_NL [OF assms(2,3), of existing] NL_chars(8)
  by (intro getlines_unlines) (auto simp add: line_no_NL)

lemma childLines_all:
  "childLines parent {} children =
     concat (map (\<lambda>child. [createLine child, linkLine parent child]) children)"
  by (simp add: childLines_def)

lemma linkLine_lines:
  "linkLine parent child \<in> set (tableLine table # childLines parent existing children @ [''COMMIT''])
     \<longleftrightarrow> child \<in> set children \<and> child \<notin> existing"
  by (auto simp add: set_childLines linkLine_def tableLine_def createLine_def)

lemma createLine_lines:
  "createLine chain \<in> set (tableLine table # childLines parent existing children @ [''COMMIT''])
     \<longleftrightarrow> chain \<in> set children"
  by (auto simp add: set_childLines linkLine_def tableLine_def createLine_def)

lemma no_delete_lines:
  "line \<in> set (tableLine table # childLines parent existing children @ [''COMMIT'']) \<Longrightarrow>
   \<not> deleteCommand line \<and> \<not> flushCommand line"
  by (auto simp add: set_childLines linkLine_def tableLine_def createLine_def deleteCommand_def
      flushCommand_def)

lemma example_names:
  "NL \<notin> set ''filter''" "chainName ''OUTPUT''" "chainName ''oem_out''"
  "chainName ''fw_OUTPUT''" "chainName ''st_OUTPUT''" "chainName ''bw_OUTPUT''"
  by (simp_all add: chainName_def NL_def)

section \<open>C1: the access decision list\<close>

text \<open>With at most one applicable VPN, the first applicable VPN is secure exactly when
  some secure VPN applies.\<close>

lemma find_filter_hd:
  "find P xs = (case filter P xs of [] \<Rightarrow> None | x # _ \<Rightarrow> Some x)"
  by (induction xs) simp_all

lemma firstVpnIsSecure_find:
  "firstVpnIsSecure s uid =
     (case find (vpnApplies uid) (mNetworks s) of None \<Rightarrow> False | Some e \<Rightarrow> mSecure (snd e))"
  unfolding firstVpnIsSecure_def by (rule find_first_char [symmetric])

lemma secureVpnApplies_filter:
  "secureVpnApplies s uid =
     (\<exists>e \<in> set (filter (vpnApplies uid) (mNetworks s)). mSecure (snd e))"
  by (auto simp add: secureVpnApplies_def vpnApplies_def)

lemma one_vpn_first_is_any:
  assumes "atMostOneVpn s uid"
  shows "firstVpnIsSecure s uid = secureVpnApplies s uid"
proof (cases "filter (vpnApplies uid) (mNetworks s)")
  case Nil
  then show ?thesis
    unfolding firstVpnIsSecure_find secureVpnApplies_filter find_filter_hd by simp
next
  case (Cons e rest)
  with assms have "rest = []" by (simp add: atMostOneVpn_def)
  with Cons show ?thesis
    unfolding firstVpnIsSecure_find secureVpnApplies_filter find_filter_hd by simp
qed

lemma checkUserNetworkAccess_first_vpn:
  "accessDecisionList firstVpnIsSecure c s uid netId (checkUserNetworkAccess c s uid netId)"
  unfolding accessDecisionList_def checkUserNetworkAccess_def checkUserNetworkAccessLocked_def
  by (simp add: getNetworkLocked_def Let_def firstVpnIsSecure_code appliesToUser_ex_iff
      appliesToUser_None_iff isVirtual_def isPhysical_def isUnreachable_def getPermission_def
      NO_NETWORK_def REMOTE_IO_def PERMISSION_DENIED_def ACCESS_DENIED_def errno_defs
      split: option.splits)

lemma access_reached: "run exampleConfig [] accessSteps = accessController"
  unfolding run_def accessSteps_def NetworkController_example
  by (simp add: accessController_def emptyController_def exampleConfig_def okKernel_def
      createPhysicalNetwork_def createPhysicalNetworkLocked_def
      createVirtualNetwork_def MIN_NET_ID_def MAX_NET_ID_def isValidNetworkLocked_def
      getNetworkLocked_def modifyFallthroughLocked_def NETID_UNSET_def newVirtualNetwork_def
      newPhysicalNetwork_def newNetwork_def setPermission_def updateTcpSocketMonitorPolling_def
      isPhysical_def getNetId_def getInterfaces_def getPermission_def
      setDefaultNetwork_def addAsDefault_def
      addUsersToNetwork_def isWrongNetworkForUidRanges_def canAddUsers_def addUsers_def
      addRanges_def
      callOn_def logCall_def setNetwork_def invoke_def PERMISSION_NONE_def)

text \<open>
  C1. In every registry state in which at most one Virtual network applies to uid, for
  every configuration and netId, checkUserNetworkAccess(uid, netId) follows the nine-step
  decision list: the return code is NO_NETWORK if netId is not registered; else REMOTE_IO
  if uid is INVALID_UID; else 0 if the uid's permission includes SYSTEM; else, on a
  Virtual network, 0 iff it applies to uid and PERMISSION_DENIED otherwise; else
  PERMISSION_DENIED if a secure VPN applies to uid and uid is not protectable on netId;
  else 0 on a Physical network that applies to uid; else, on the Unreachable network, 0
  iff it applies to uid; else ACCESS_DENIED if the allowlist denies uid; else 0 iff
  (user_permission & network_permission) == network_permission and ACCESS_DENIED
  otherwise.
\<close>

theorem checkUserNetworkAccess_decision_list:
  "atMostOneVpn s uid \<longrightarrow>
   accessDecisionList secureVpnApplies c s uid netId (checkUserNetworkAccess c s uid netId)"
proof
  assume "atMostOneVpn s uid"
  then have eq: "firstVpnIsSecure s uid = secureVpnApplies s uid"
    by (rule one_vpn_first_is_any)
  from checkUserNetworkAccess_first_vpn [of c s uid netId] show
    "accessDecisionList secureVpnApplies c s uid netId (checkUserNetworkAccess c s uid netId)"
    unfolding accessDecisionList_def eq .
qed

text \<open>The decision list at work after the physical network 100 and the secure VPN 101
  for uid 10001 are created: uid 10001 is denied the network 100 by step 5, uid 10002 is
  not, and uid 10001 is let through once it is protectable.\<close>

lemma access_examples:
  "atMostOneVpn accessController 10001"
  "atMostOneVpn accessController 10002"
  "atMostOneVpn (snd (allowProtect 10001 NETID_UNSET accessController)) 10001"
  "secureVpnApplies accessController 10001"
  "\<not> secureVpnApplies accessController 10002"
  "checkUserNetworkAccess exampleConfig accessController 10001 100 = PERMISSION_DENIED"
  "checkUserNetworkAccess exampleConfig accessController 10002 100 = 0"
  "checkUserNetworkAccess exampleConfig (snd (allowProtect 10001 NETID_UNSET accessController))
     10001 100 = 0"
  by (simp_all add: atMostOneVpn_def secureVpnApplies_def vpnApplies_def appliesTo_def
      allowProtect_def checkUserNetworkAccess_def checkUserNetworkAccessLocked_def
      accessController_def emptyController_def exampleConfig_def newNetwork_def lookup_defs
      PERMISSION_NONE_def NETID_UNSET_def PERMISSION_DENIED_def errno_defs)

theorem checkUserNetworkAccess_decision_list_witness:
  "atMostOneVpn (run exampleConfig [] accessSteps) 10001 \<and>
   secureVpnApplies (run exampleConfig [] accessSteps) 10001 \<and>
   checkUserNetworkAccess exampleConfig (run exampleConfig [] accessSteps) 10001 100
     = PERMISSION_DENIED \<and>
   accessDecisionList secureVpnApplies exampleConfig (run exampleConfig [] accessSteps)
     10001 100 PERMISSION_DENIED \<and>
   checkUserNetworkAccess exampleConfig (run exampleConfig [] accessSteps) 10002 100 = 0 \<and>
   checkUserNetworkAccess exampleConfig
     (snd (allowProtect 10001 NETID_UNSET (run exampleConfig [] accessSteps))) 10001 100 = 0"
  using checkUserNetworkAccess_decision_list
      [of "run exampleConfig [] accessSteps" 10001 exampleConfig 100]
    access_examples
  by (simp add: access_reached)
section \<open>C2: the common case of getNetworkForDns\<close>

lemma unat_netId: "d < 2 ^ 16 \<Longrightarrow> unat (of_nat d :: 16 word) = d"
  by (simp add: unat_of_nat)

lemma unat_permission: "p < 2 ^ 2 \<Longrightarrow> unat (of_nat p :: 2 word) = p"
  by (simp add: unat_of_nat)

lemma wellFormed_key_bound:
  assumes wf: "wellFormed c s" and fits: "fitsFwmark c"
    and mem: "(key, n) \<in> set (mNetworks s)"
    and t: "mType n = Physical \<or> mType n = Unreachable"
  shows "key < 2 ^ 16"
proof -
  have "(key, mType n, mNetId n) \<in> set (shape s)" using mem by (rule shape_mem)
  then have "entryOk c (key, mType n, mNetId n)"
    using wf unfolding wellFormed_def shapeOk_def by blast
  then have "key \<le> MAX_NET_ID \<or> key \<le> MAX_OEM_ID c \<or> key = UNREACHABLE_NET_ID c"
    using t by (auto simp: entryOk_def)
  then show ?thesis
    using fits by (auto simp: fitsFwmark_def MAX_NET_ID_def)
qed

lemma wellFormed_connect_bound:
  assumes wf: "wellFormed c s" and fits: "fitsFwmark c"
  shows "getNetworkForConnect s uid < 2 ^ 16"
proof (cases "\<exists>e. isAppDefault s uid e")
  case True
  then obtain e where e: "isAppDefault s uid e" "getNetworkForConnect s uid = fst e"
    using network_selection [OF wf, of uid] by blast
  have mem: "(fst e, snd e) \<in> set (mNetworks s)" using e(1) by (simp add: isAppDefault_def)
  have "mType (snd e) = Physical \<or> mType (snd e) = Unreachable"
    using e(1) by (auto simp: isAppDefault_def appDefaultCandidate_def split: if_splits)
  with wf fits mem have "fst e < 2 ^ 16" by (rule wellFormed_key_bound)
  with e(2) show ?thesis by simp
next
  case False
  then have d: "getNetworkForConnect s uid = mDefaultNetId s"
    using network_selection [OF wf, of uid] by blast
  show ?thesis
  proof (cases "mDefaultNetId s = NETID_UNSET")
    case True
    with d show ?thesis by (simp add: NETID_UNSET_def)
  next
    case False
    then have "(mDefaultNetId s, Physical, mDefaultNetId s) \<in> set (shape s)"
      using wf by (simp add: wellFormed_def shapeOk_def)
    then obtain n where "(mDefaultNetId s, n) \<in> set (mNetworks s)" "mType n = Physical"
      using shape_memD by blast
    then have "mDefaultNetId s < 2 ^ 16"
      using wellFormed_key_bound [OF wf fits] by blast
    with d show ?thesis by simp
  qed
qed

lemma getNetworkForDnsLocked_common:
  assumes "\<forall>e \<in> set (mNetworks s). \<not> vpnApplies uid e"
  shows "getNetworkForDnsLocked c resolv s NETID_UNSET uid =
     (\<lparr>fwNetId = of_nat (getNetworkForConnect s uid), fwExplicitlySelected = True,
       fwProtectedFromVpn = True, fwPermission = of_nat (PERMISSION_SYSTEM c)\<rparr>,
      getNetworkForConnect s uid)"
proof -
  have "find (vpnApplies uid) (mNetworks s) = None"
    using assms by (simp add: find_None_iff)
  then have "getVirtualNetworkForUserLocked s uid = None"
    unfolding getVirtualNetworkForUserLocked_def vpn_pred_eq by simp
  then show ?thesis
    by (simp add: getNetworkForDnsLocked_def Let_def newFwmark_def getNetworkForConnect_def
        getNetworkForConnectLocked_def)
qed

text \<open>
  C2. With constants that fit the fields of the mark, in every state the registry
  reaches, for every uid and every DNS query whose requested netId is UNSET: if no
  Virtual network applies to uid, getNetworkForDns rewrites the netId to the netId d of
  the app default of uid when there is one and to the default netId otherwise, and
  returns a mark whose fields are netId = d, explicitlySelected = true,
  protectedFromVpn = true and permission = SYSTEM.
\<close>

theorem getNetworkForDns_unset_no_vpn:
  "fitsFwmark c \<and> (\<forall>e \<in> set (mNetworks (run c ifIndices steps)). \<not> vpnApplies uid e) \<longrightarrow>
   (\<exists>d fw.
      getNetworkForDnsLocked c resolv (run c ifIndices steps) NETID_UNSET uid = (fw, d) \<and>
      ((\<exists>e. isAppDefault (run c ifIndices steps) uid e) \<longrightarrow>
         (\<exists>e. isAppDefault (run c ifIndices steps) uid e \<and> d = fst e)) \<and>
      (\<not> (\<exists>e. isAppDefault (run c ifIndices steps) uid e) \<longrightarrow>
         d = mDefaultNetId (run c ifIndices steps)) \<and>
      unat (fwNetId fw) = d \<and>
      fwExplicitlySelected fw \<and>
      fwProtectedFromVpn fw \<and>
      unat (fwPermission fw) = PERMISSION_SYSTEM c)"
proof (intro impI)
  let ?s = "run c ifIndices steps"
  let ?d = "getNetworkForConnect ?s uid"
  let ?fw = "\<lparr>fwNetId = of_nat ?d, fwExplicitlySelected = True,
       fwProtectedFromVpn = True, fwPermission = of_nat (PERMISSION_SYSTEM c)\<rparr>"
  assume a: "fitsFwmark c \<and> (\<forall>e \<in> set (mNetworks ?s). \<not> vpnApplies uid e)"
  then have fits: "fitsFwmark c" and novpn: "\<forall>e \<in> set (mNetworks ?s). \<not> vpnApplies uid e"
    by simp_all
  have wf: "wellFormed c ?s" by (rule run_wellFormed)
  have dns: "getNetworkForDnsLocked c resolv ?s NETID_UNSET uid = (?fw, ?d)"
    using novpn by (rule getNetworkForDnsLocked_common)
  have bound: "?d < 2 ^ 16" using wf fits by (rule wellFormed_connect_bound)
  have 1: "unat (fwNetId ?fw) = ?d" using unat_netId [OF bound] by simp
  have 2: "unat (fwPermission ?fw) = PERMISSION_SYSTEM c"
    using fits unat_permission [of "PERMISSION_SYSTEM c"] by (simp add: fitsFwmark_def)
  have 3: "(\<exists>e. isAppDefault ?s uid e) \<longrightarrow> (\<exists>e. isAppDefault ?s uid e \<and> ?d = fst e)"
    "\<not> (\<exists>e. isAppDefault ?s uid e) \<longrightarrow> ?d = mDefaultNetId ?s"
    using network_selection [OF wf, of uid] by blast+
  have "fwExplicitlySelected ?fw" "fwProtectedFromVpn ?fw" by simp_all
  with dns 1 2 3 show "\<exists>d fw.
      getNetworkForDnsLocked c resolv ?s NETID_UNSET uid = (fw, d) \<and>
      ((\<exists>e. isAppDefault ?s uid e) \<longrightarrow> (\<exists>e. isAppDefault ?s uid e \<and> d = fst e)) \<and>
      (\<not> (\<exists>e. isAppDefault ?s uid e) \<longrightarrow> d = mDefaultNetId ?s) \<and>
      unat (fwNetId fw) = d \<and> fwExplicitlySelected fw \<and> fwProtectedFromVpn fw \<and>
      unat (fwPermission fw) = PERMISSION_SYSTEM c"
    by blast
qed

text \<open>Under no VPN, uid 10002 resolves on its app default 102 and uid 10003 on the
  default 100, both with an explicitly selected, protected mark of permission SYSTEM.\<close>

theorem getNetworkForDns_unset_no_vpn_witness:
  "fitsFwmark exampleConfig \<and>
   \<not> (\<exists>e \<in> set (mNetworks (run exampleConfig [] selectionSteps)). vpnApplies 10002 e) \<and>
   getNetworkForDnsLocked exampleConfig (\<lambda>netId. True) (run exampleConfig [] selectionSteps)
       NETID_UNSET 10002
     = (\<lparr>fwNetId = 102, fwExplicitlySelected = True, fwProtectedFromVpn = True,
         fwPermission = 3\<rparr>, 102) \<and>
   getNetworkForDnsLocked exampleConfig (\<lambda>netId. True) (run exampleConfig [] selectionSteps)
       NETID_UNSET 10003
     = (\<lparr>fwNetId = 100, fwExplicitlySelected = True, fwProtectedFromVpn = True,
         fwPermission = 3\<rparr>, 100)"
proof -
  let ?s = "run exampleConfig [] selectionSteps"
  have fits: "fitsFwmark exampleConfig"
    by (simp add: fitsFwmark_def exampleConfig_def)
  have novpn: "\<forall>e \<in> set (mNetworks ?s). \<not> vpnApplies 10002 e"
    "\<forall>e \<in> set (mNetworks ?s). \<not> vpnApplies 10003 e"
    by (simp_all add: selection_reached selectionController_def emptyController_def
        newNetwork_def vpnApplies_def appliesTo_def)
  have connect: "getNetworkForConnect ?s 10002 = 102" "getNetworkForConnect ?s 10003 = 100"
    unfolding selection_reached
    by (simp_all add: getNetworkForConnect_def getNetworkForConnectLocked_def
        selectionController_def emptyController_def newNetwork_def lookup_defs
        SUB_PRIORITY_NO_DEFAULT_def)
  have perm: "PERMISSION_SYSTEM exampleConfig = 3" by (simp add: exampleConfig_def)
  show ?thesis
    using getNetworkForDns_unset_no_vpn
        [of exampleConfig "[]" selectionSteps 10002 "\<lambda>netId. True"]
      fits novpn
      getNetworkForDnsLocked_common [OF novpn(1), of exampleConfig "\<lambda>netId. True"]
      getNetworkForDnsLocked_common [OF novpn(2), of exampleConfig "\<lambda>netId. True"]
    by (simp add: connect perm)
qed
section \<open>C3: the sentinel networks\<close>

text \<open>
  C3, as amended. The three sentinel networks LOCAL, DUMMY and UNREACHABLE are registered
  by the constructor. LOCAL and UNREACHABLE can never be destroyed: for each of the two,
  destroyNetwork returns the nonzero error INVALID_ARG and leaves the registry unchanged,
  and both are registered after any sequence of operations in any environment. (Nothing
  is promised for DUMMY.)
\<close>

theorem sentinels_survive:
  "isValidNetworkLocked (NetworkController c ifIndices) (LOCAL_NET_ID c) \<and>
   isValidNetworkLocked (NetworkController c ifIndices) (DUMMY_NET_ID c) \<and>
   isValidNetworkLocked (NetworkController c ifIndices) (UNREACHABLE_NET_ID c) \<and>
   destroyNetwork c k (LOCAL_NET_ID c) s = (- EINVAL, s) \<and>
   destroyNetwork c k (UNREACHABLE_NET_ID c) s = (- EINVAL, s) \<and>
   - EINVAL \<noteq> 0 \<and>
   isValidNetworkLocked (run c ifIndices steps) (LOCAL_NET_ID c) \<and>
   isValidNetworkLocked (run c ifIndices steps) (UNREACHABLE_NET_ID c)"
  using NetworkController_sentinels [of c ifIndices]
    wellFormed_sentinels [OF run_wellFormed, of c ifIndices steps]
  by (simp add: destroyNetwork_refused errno_defs)

text \<open>After attempts to destroy LOCAL (99) and UNREACHABLE (52), both are registered.\<close>

theorem sentinels_survive_witness:
  "isValidNetworkLocked (NetworkController exampleConfig []) 51 \<and>
   destroyNetwork exampleConfig okKernel 99 (NetworkController exampleConfig [])
     = (- EINVAL, NetworkController exampleConfig []) \<and>
   isValidNetworkLocked
     (run exampleConfig [] [(okKernel, DestroyNetwork 99), (okKernel, DestroyNetwork 52)]) 99 \<and>
   isValidNetworkLocked
     (run exampleConfig [] [(okKernel, DestroyNetwork 99), (okKernel, DestroyNetwork 52)]) 52"
  using sentinels_survive
    [of exampleConfig "[]" okKernel "NetworkController exampleConfig []"
       "[(okKernel, DestroyNetwork 99), (okKernel, DestroyNetwork 52)]"]
  by (simp add: exampleConfig_def)

text \<open>
  C3 as stated fails for DUMMY: on the fresh registry destroyNetwork(DUMMY) returns 0 and
  DUMMY is no longer registered; the guard of destroyNetwork names LOCAL and UNREACHABLE
  only.
\<close>

theorem destroyNetwork_dummy_counterexample:
  "fst (destroyNetwork exampleConfig okKernel (DUMMY_NET_ID exampleConfig)
          (NetworkController exampleConfig [])) = 0 \<and>
   \<not> isValidNetworkLocked
       (snd (destroyNetwork exampleConfig okKernel (DUMMY_NET_ID exampleConfig)
               (NetworkController exampleConfig [])))
       (DUMMY_NET_ID exampleConfig)"
  unfolding NetworkController_example
  by (simp add: destroyNetwork_def exampleConfig_def emptyController_def getNetworkLocked_def
      clearInterfaces_def okKernel_def newNetwork_def setNetwork_def logCall_def NETID_UNSET_def
      isVirtual_def mapErase_def updateTcpSocketMonitorPolling_def isPhysical_def
      isValidNetworkLocked_def)
section \<open>C4: allocation of OEM network ids\<close>

lemma oemScan_bounds: "i \<le> hi + 1 \<Longrightarrow> i \<le> oemScan s i hi \<and> oemScan s i hi \<le> hi + 1"
proof (induction s i hi rule: oemScan.induct)
  case (1 s i hi)
  show ?case
  proof (cases "i \<le> hi \<and> isValidNetworkLocked s i")
    case True
    then have "oemScan s i hi = oemScan s (i + 1) hi" by (subst oemScan.simps) simp
    moreover have "i + 1 \<le> oemScan s (i + 1) hi \<and> oemScan s (i + 1) hi \<le> hi + 1"
      using 1 True by simp
    ultimately show ?thesis by simp
  next
    case False
    then have "oemScan s i hi = i" by (subst oemScan.simps) auto
    with 1 show ?thesis by simp
  qed
qed

lemma oemScan_skips: "j < oemScan s i hi \<Longrightarrow> i \<le> j \<Longrightarrow> isValidNetworkLocked s j"
proof (induction s i hi rule: oemScan.induct)
  case (1 s i hi)
  show ?case
  proof (cases "i \<le> hi \<and> isValidNetworkLocked s i")
    case True
    then have eq: "oemScan s i hi = oemScan s (i + 1) hi" by (subst oemScan.simps) simp
    show ?thesis
    proof (cases "j = i")
      case True
      with \<open>i \<le> hi \<and> isValidNetworkLocked s i\<close> show ?thesis by simp
    next
      case False
      with 1 True eq show ?thesis by simp
    qed
  next
    case False
    then have "oemScan s i hi = i" by (subst oemScan.simps) auto
    with 1 show ?thesis by simp
  qed
qed

lemma oemScan_free: "oemScan s i hi \<le> hi \<Longrightarrow> \<not> isValidNetworkLocked s (oemScan s i hi)"
proof (induction s i hi rule: oemScan.induct)
  case (1 s i hi)
  show ?case
  proof (cases "i \<le> hi \<and> isValidNetworkLocked s i")
    case True
    then have eq: "oemScan s i hi = oemScan s (i + 1) hi" by (subst oemScan.simps) simp
    with 1 True show ?thesis by simp
  next
    case False
    then have "oemScan s i hi = i" by (subst oemScan.simps) auto
    with 1 False show ?thesis by simp
  qed
qed

lemma oemScan_exhausted:
  "(\<forall>j. lo \<le> j \<and> j \<le> hi \<longrightarrow> isValidNetworkLocked s j) \<Longrightarrow> hi < oemScan s lo hi"
proof (rule ccontr)
  assume a: "\<forall>j. lo \<le> j \<and> j \<le> hi \<longrightarrow> isValidNetworkLocked s j"
  assume "\<not> hi < oemScan s lo hi"
  then have le: "oemScan s lo hi \<le> hi" by simp
  then have "lo \<le> hi \<or> oemScan s lo hi = lo"
    by (subst (asm) oemScan.simps) (auto split: if_splits)
  then have "lo \<le> hi" using le by auto
  then have "lo \<le> oemScan s lo hi" using oemScan_bounds [of lo hi s] by simp
  with a le have "isValidNetworkLocked s (oemScan s lo hi)" by simp
  with oemScan_free [OF le] show False by simp
qed

lemma oemScan_first_free:
  assumes "lo \<le> i" "i \<le> hi" "\<not> isValidNetworkLocked s i"
    and "\<forall>j. lo \<le> j \<and> j < i \<longrightarrow> isValidNetworkLocked s j"
  shows "oemScan s lo hi = i"
proof -
  have b: "lo \<le> oemScan s lo hi" "oemScan s lo hi \<le> hi + 1"
    using oemScan_bounds [of lo hi s] assms by simp_all
  have "\<not> i < oemScan s lo hi"
    using oemScan_skips [of i s lo hi] assms by auto
  moreover have "\<not> oemScan s lo hi < i"
  proof
    assume lt: "oemScan s lo hi < i"
    then have "oemScan s lo hi \<le> hi" using assms by simp
    then have "\<not> isValidNetworkLocked s (oemScan s lo hi)" by (rule oemScan_free)
    with assms(4) b(1) lt show False by simp
  qed
  ultimately show ?thesis by simp
qed

lemma createPhysicalNetworkLocked_oem:
  assumes "MIN_OEM_ID c \<le> i" "i \<le> MAX_OEM_ID c" "\<not> isValidNetworkLocked s i"
  shows "fst (createPhysicalNetworkLocked c k i permission local s) = 0"
    and "getNetworkLocked (snd (createPhysicalNetworkLocked c k i permission local s))
           = (getNetworkLocked s)(i \<mapsto> (newPhysicalNetwork i local)\<lparr>mPermission := permission\<rparr>)"
  using assms
  by (simp_all add: createPhysicalNetworkLocked_def setPermission_def newPhysicalNetwork_def
      newNetwork_def getNetworkLocked_eq map_of_mapInsert)

text \<open>
  C4. createPhysicalOemNetwork(permission, &out): when some id of
  [MIN_OEM_ID, MAX_OEM_ID] is not registered, the call returns 0, writes to out the
  smallest such id i (every id of the range below i is registered), and registers under
  i a physical network with that id and the permission, all other entries of the map
  being as before; when every id of the range is registered, it returns EXHAUSTED, sets
  out to 0 and leaves the registry as it was. A null out pointer is refused.
\<close>

theorem createPhysicalOemNetwork_allocation:
  "createPhysicalOemNetwork c k permission None s = (- EINVAL, None, s) \<and>
   ((\<forall>j. MIN_OEM_ID c \<le> j \<and> j \<le> MAX_OEM_ID c \<longrightarrow> isValidNetworkLocked s j) \<longrightarrow>
      createPhysicalOemNetwork c k permission (Some out) s = (EXHAUSTED, Some 0, s)) \<and>
   (\<forall>i. MIN_OEM_ID c \<le> i \<and> i \<le> MAX_OEM_ID c \<and> \<not> isValidNetworkLocked s i \<and>
        (\<forall>j. MIN_OEM_ID c \<le> j \<and> j < i \<longrightarrow> isValidNetworkLocked s j) \<longrightarrow>
      (\<exists>s'. createPhysicalOemNetwork c k permission (Some out) s = (0, Some i, s') \<and>
            getNetworkLocked s' =
              (getNetworkLocked s)
                (i \<mapsto> (newPhysicalNetwork i False)\<lparr>mPermission := permission\<rparr>)))"
proof (intro conjI impI allI)
  show "createPhysicalOemNetwork c k permission None s = (- EINVAL, None, s)"
    by (simp add: createPhysicalOemNetwork_def)
next
  assume "\<forall>j. MIN_OEM_ID c \<le> j \<and> j \<le> MAX_OEM_ID c \<longrightarrow> isValidNetworkLocked s j"
  then have "MAX_OEM_ID c < oemScan s (MIN_OEM_ID c) (MAX_OEM_ID c)"
    by (rule oemScan_exhausted)
  then show "createPhysicalOemNetwork c k permission (Some out) s = (EXHAUSTED, Some 0, s)"
    by (simp add: createPhysicalOemNetwork_def EXHAUSTED_def Let_def)
next
  fix i
  assume a: "MIN_OEM_ID c \<le> i \<and> i \<le> MAX_OEM_ID c \<and> \<not> isValidNetworkLocked s i \<and>
        (\<forall>j. MIN_OEM_ID c \<le> j \<and> j < i \<longrightarrow> isValidNetworkLocked s j)"
  then have scan: "oemScan s (MIN_OEM_ID c) (MAX_OEM_ID c) = i"
    by (intro oemScan_first_free) simp_all
  let ?r = "createPhysicalNetworkLocked c k i permission False s"
  have r: "fst ?r = 0"
    "getNetworkLocked (snd ?r)
       = (getNetworkLocked s)(i \<mapsto> (newPhysicalNetwork i False)\<lparr>mPermission := permission\<rparr>)"
    using a createPhysicalNetworkLocked_oem [of c i s k permission False] by simp_all
  have "createPhysicalOemNetwork c k permission (Some out) s = (0, Some i, snd ?r)"
    using a scan r(1) by (simp add: createPhysicalOemNetwork_def Let_def split_beta)
  with r(2) show "\<exists>s'. createPhysicalOemNetwork c k permission (Some out) s = (0, Some i, s') \<and>
            getNetworkLocked s' =
              (getNetworkLocked s)
                (i \<mapsto> (newPhysicalNetwork i False)\<lparr>mPermission := permission\<rparr>)"
    by blast
qed

text \<open>On the fresh registry the id 1 is allocated; with the range [1, 2] filled, the
  allocator is exhausted.\<close>

theorem createPhysicalOemNetwork_allocation_witness:
  "fst (createPhysicalOemNetwork exampleConfig okKernel 0 (Some 7)
          (NetworkController exampleConfig [])) = 0 \<and>
   fst (snd (createPhysicalOemNetwork exampleConfig okKernel 0 (Some 7)
          (NetworkController exampleConfig []))) = Some 1 \<and>
   createPhysicalOemNetwork smallOemConfig okKernel 0 (Some 7) oemController
     = (EXHAUSTED, Some 0, oemController)"
proof -
  have full: "\<forall>j. MIN_OEM_ID smallOemConfig \<le> j \<and> j \<le> MAX_OEM_ID smallOemConfig \<longrightarrow>
      isValidNetworkLocked oemController j"
  proof (intro allI impI)
    fix j
    assume "MIN_OEM_ID smallOemConfig \<le> j \<and> j \<le> MAX_OEM_ID smallOemConfig"
    then have "j = 1 \<or> j = 2"
      by (auto simp: smallOemConfig_def exampleConfig_def)
    then show "isValidNetworkLocked oemController j"
      by (auto simp: isValidNetworkLocked_def getNetworkLocked_def oemController_def
          emptyController_def)
  qed
  have free: "MIN_OEM_ID exampleConfig \<le> 1 \<and> 1 \<le> MAX_OEM_ID exampleConfig \<and>
      \<not> isValidNetworkLocked (NetworkController exampleConfig []) 1 \<and>
      (\<forall>j. MIN_OEM_ID exampleConfig \<le> j \<and> j < 1 \<longrightarrow>
           isValidNetworkLocked (NetworkController exampleConfig []) j)"
    by (simp add: exampleConfig_def isValidNetworkLocked_def getNetworkLocked_def
        NetworkController_def)
  show ?thesis
    using createPhysicalOemNetwork_allocation
        [of smallOemConfig okKernel 0 oemController 7]
      createPhysicalOemNetwork_allocation
        [of exampleConfig okKernel 0 "NetworkController exampleConfig []" 7]
      full free
    by auto
qed
section \<open>C5: setNetworkAllowlist\<close>

lemma getNetworkLocked_clear:
  "getNetworkLocked (clearAllowedUidsForAllNetworksLocked s) j =
     map_option clearAllowedUids (getNetworkLocked s j)"
proof -
  have "map_of (map (\<lambda>(netId, network). (netId, clearAllowedUids network)) m) j =
     map_option clearAllowedUids (map_of m j)" for m
    by (induction m) auto
  then show ?thesis by (simp add: getNetworkLocked_def clearAllowedUidsForAllNetworksLocked_def)
qed

lemma listedLast_Cons:
  "listedLast ((netId, uidRanges) # rest) j =
     (case listedLast rest j of
        Some r \<Rightarrow> Some r
      | None \<Rightarrow> if j = netId then Some uidRanges else None)"
  by (simp add: listedLast_def map_add_def split: option.splits)

lemma getNetworkLocked_applyAllowlist:
  "getNetworkLocked (applyAllowlist rangeConfigs s) j =
     map_option
       (\<lambda>n. case listedLast rangeConfigs j of None \<Rightarrow> n | Some r \<Rightarrow> n\<lparr>mAllowedUids := r\<rparr>)
       (getNetworkLocked s j)"
proof (induction rangeConfigs arbitrary: s)
  case Nil
  show ?case by (simp add: listedLast_def option.map_ident)
next
  case (Cons config rest)
  obtain netId uidRanges where config: "config = (netId, uidRanges)" by (cases config)
  show ?case
  proof (cases "getNetworkLocked s netId")
    case None
    then show ?thesis
      using Cons.IH [of s]
      by (cases "j = netId")
         (auto simp: config listedLast_Cons split: option.splits)
  next
    case (Some network)
    then show ?thesis
      using Cons.IH [of "setNetwork netId (setAllowedUids uidRanges network) s"]
      by (cases "getNetworkLocked s j")
         (auto simp: config listedLast_Cons getNetworkLocked_setNetwork setAllowedUids_def
            split: option.splits)
  qed
qed

lemma setNetworkAllowlist_fails:
  "(netId, uidRanges) \<in> set rangeConfigs \<Longrightarrow> getNetworkLocked s netId = None \<Longrightarrow>
   setNetworkAllowlist rangeConfigs s = (- ENONET, s)"
  by (auto simp: setNetworkAllowlist_def list_ex_iff)

lemma setNetworkAllowlist_succeeds:
  assumes "\<forall>(netId, uidRanges) \<in> set rangeConfigs. getNetworkLocked s netId \<noteq> None"
  shows "fst (setNetworkAllowlist rangeConfigs s) = 0"
    and "getNetworkLocked (snd (setNetworkAllowlist rangeConfigs s)) j =
       map_option
         (\<lambda>n. n\<lparr>mAllowedUids := (case listedLast rangeConfigs j of None \<Rightarrow> [] | Some r \<Rightarrow> r)\<rparr>)
         (getNetworkLocked s j)"
proof -
  have ok: "\<not> list_ex (\<lambda>(netId, uidRanges). getNetworkLocked s netId = None) rangeConfigs"
    using assms by (auto simp: list_ex_iff)
  then show "fst (setNetworkAllowlist rangeConfigs s) = 0"
    by (simp add: setNetworkAllowlist_def)
  show "getNetworkLocked (snd (setNetworkAllowlist rangeConfigs s)) j =
       map_option
         (\<lambda>n. n\<lparr>mAllowedUids := (case listedLast rangeConfigs j of None \<Rightarrow> [] | Some r \<Rightarrow> r)\<rparr>)
         (getNetworkLocked s j)"
    using ok
    by (cases "getNetworkLocked s j")
       (auto simp: setNetworkAllowlist_def getNetworkLocked_applyAllowlist getNetworkLocked_clear
          clearAllowedUids_def split: option.splits)
qed

text \<open>
  C5, as amended. setNetworkAllowlist is atomic: for every list of {netId, ranges}
  configs, if a listed netId is not registered the call returns NO_NETWORK and the
  registry is as before, no allowlist being modified; if all listed netIds are registered
  the call returns 0 and afterwards every registered network is as before but for its
  allowlist, which for a network named in the list is the ranges of the last config that
  names it, and for every other registered network is empty.
\<close>

theorem setNetworkAllowlist_atomic:
  "((\<exists>(netId, uidRanges) \<in> set rangeConfigs. getNetworkLocked s netId = None) \<longrightarrow>
      setNetworkAllowlist rangeConfigs s = (NO_NETWORK, s)) \<and>
   ((\<forall>(netId, uidRanges) \<in> set rangeConfigs. getNetworkLocked s netId \<noteq> None) \<longrightarrow>
      fst (setNetworkAllowlist rangeConfigs s) = 0 \<and>
      (\<forall>j. getNetworkLocked (snd (setNetworkAllowlist rangeConfigs s)) j =
         map_option
           (\<lambda>n. n\<lparr>mAllowedUids :=
                     (case listedLast rangeConfigs j of None \<Rightarrow> [] | Some r \<Rightarrow> r)\<rparr>)
           (getNetworkLocked s j)))"
  using setNetworkAllowlist_fails [of _ _ rangeConfigs s]
    setNetworkAllowlist_succeeds [of rangeConfigs s]
  by (auto simp: NO_NETWORK_def)

text \<open>Where no netId is listed twice, every config gives the allowlist of its network.\<close>

lemma setNetworkAllowlist_distinct:
  assumes "\<forall>(netId, uidRanges) \<in> set rangeConfigs. getNetworkLocked s netId \<noteq> None"
    and "distinct (map fst rangeConfigs)"
  shows "claimedAllowlist rangeConfigs (snd (setNetworkAllowlist rangeConfigs s))"
proof -
  have "listedLast rangeConfigs netId = Some uidRanges"
    if "(netId, uidRanges) \<in> set rangeConfigs" for netId uidRanges
    using that assms(2) by (simp add: listedLast_def rev_map [symmetric])
  then show ?thesis
    using assms(1) setNetworkAllowlist_succeeds(2) [OF assms(1)]
    by (fastforce simp: claimedAllowlist_def option.map_comp comp_def)
qed

lemma physicalController_lookup:
  "getNetworkLocked physicalController 100 = Some ((newNetwork Physical 100)\<lparr>mIsDefault := True\<rparr>)"
  "getNetworkLocked physicalController 101 = Some (newNetwork Physical 101)"
  "getNetworkLocked physicalController 7 = None"
  by (simp_all add: getNetworkLocked_def physicalController_def emptyController_def)

theorem setNetworkAllowlist_atomic_witness:
  "setNetworkAllowlist [(100, [(10001, 10005)]), (7, [])] physicalController
     = (NO_NETWORK, physicalController) \<and>
   fst (setNetworkAllowlist [(100, [(5, 5)]), (100, [(10001, 10005)])] physicalController) = 0 \<and>
   map_option mAllowedUids
     (getNetworkLocked
        (snd (setNetworkAllowlist [(100, [(5, 5)]), (100, [(10001, 10005)])] physicalController))
        100) = Some [(10001, 10005)] \<and>
   map_option mAllowedUids
     (getNetworkLocked
        (snd (setNetworkAllowlist [(100, [(5, 5)]), (100, [(10001, 10005)])] physicalController))
        101) = Some []"
proof -
  have bad: "\<exists>(netId, uidRanges) \<in> set [(100, [(10001, 10005)]), (7 :: nat, [])].
      getNetworkLocked physicalController netId = None"
    by (simp add: physicalController_lookup)
  have good: "\<forall>(netId, uidRanges) \<in> set [(100 :: nat, [(5 :: nat, 5 :: nat)]), (100, [(10001, 10005)])].
      getNetworkLocked physicalController netId \<noteq> None"
    by (simp add: physicalController_lookup)
  have l: "listedLast [(100, [(5, 5)]), (100, [(10001, 10005)])] 100 = Some [(10001, 10005)]"
    "listedLast [(100, [(5, 5)]), (100, [(10001, 10005)])] 101 = None"
    by (simp_all add: listedLast_def)
  show ?thesis
    using setNetworkAllowlist_atomic
        [of "[(100, [(10001, 10005)]), (7, [])]" physicalController]
      setNetworkAllowlist_atomic
        [of "[(100, [(5, 5)]), (100, [(10001, 10005)])]" physicalController]
      bad good
    by (simp add: l physicalController_lookup option.map_comp comp_def)
qed

text \<open>
  C5 as stated fails on a list that names a netId twice: the network 100 is listed with
  the range (5, 5) and ends up with the allowlist [(6, 6)] of the later config.
\<close>

theorem setNetworkAllowlist_duplicate_counterexample:
  "fst (setNetworkAllowlist [(100, [(5, 5)]), (100, [(6, 6)])] physicalController) = 0 \<and>
   \<not> claimedAllowlist [(100, [(5, 5)]), (100, [(6, 6)])]
       (snd (setNetworkAllowlist [(100, [(5, 5)]), (100, [(6, 6)])] physicalController))"
proof -
  have good: "\<forall>(netId, uidRanges) \<in> set [(100 :: nat, [(5 :: nat, 5 :: nat)]), (100, [(6, 6)])].
      getNetworkLocked physicalController netId \<noteq> None"
    by (simp add: physicalController_lookup)
  have l: "listedLast [(100, [(5, 5)]), (100, [(6, 6)])] 100 = Some [(6, 6)]"
    by (simp add: listedLast_def)
  show ?thesis
    using setNetworkAllowlist_succeeds(1) [OF good]
      setNetworkAllowlist_succeeds(2) [OF good, of 100]
    by (simp add: l claimedAllowlist_def physicalController_lookup)
qed
section \<open>C6: address removal and VPN handover\<close>

lemma lastNetIdAt_value [simp]: "fst (lastNetIdAt idx s) = lastNetIdOr0 s idx"
  by (simp add: lastNetIdAt_def lastNetIdOr0_def split: option.splits)

lemma lastNetIdAt_keeps [simp]: "lastNetIdOr0 (snd (lastNetIdAt idx s)) j = lastNetIdOr0 s j"
  by (simp add: lastNetIdAt_def lastNetIdOr0_def split: option.splits)

lemma isVirtualNetworkLocked_cong:
  "mNetworks s' = mNetworks s \<Longrightarrow> isVirtualNetworkLocked s' netId = isVirtualNetworkLocked s netId"
  by (simp add: isVirtualNetworkLocked_def getNetworkLocked_def)

lemma handoverLoop_result:
  "fst (handoverLoop lastNetId ifindices s) =
     (\<not> (\<exists>idx \<in> set ifindices.
            lastNetIdOr0 s idx = lastNetId \<and> isVirtualNetworkLocked s lastNetId))"
proof (induction ifindices arbitrary: s)
  case Nil
  show ?case by simp
next
  case (Cons idx rest)
  let ?s1 = "snd (lastNetIdAt idx s)"
  have v: "isVirtualNetworkLocked ?s1 netId = isVirtualNetworkLocked s netId" for netId
    by (rule isVirtualNetworkLocked_cong) simp
  have ih: "fst (handoverLoop lastNetId rest ?s1) =
     (\<not> (\<exists>idx \<in> set rest. lastNetIdOr0 s idx = lastNetId \<and> isVirtualNetworkLocked s lastNetId))"
    using Cons.IH [of ?s1] by (simp add: v)
  show ?case
  proof (cases "lastNetId = lastNetIdOr0 s idx \<and> isVirtualNetworkLocked s lastNetId")
    case True
    then show ?thesis by (auto simp: split_beta v)
  next
    case False
    then have "fst (handoverLoop lastNetId (idx # rest) s) = fst (handoverLoop lastNetId rest ?s1)"
      by (auto simp: split_beta v)
    with ih False show ?thesis by auto
  qed
qed

lemma removeInterfaceAddress_result:
  "fst (removeInterfaceAddress ifindex address s) =
     (case mAddressToIfindices s address of
        None \<Rightarrow> True
      | Some ifindices \<Rightarrow>
          ifindex \<notin> set ifindices \<or> removeAll ifindex ifindices = [] \<or>
          (case mIfindexToLastNetId s ifindex of
             None \<Rightarrow> True
           | Some lastNetId \<Rightarrow>
               \<not> (\<exists>idx \<in> set (removeAll ifindex ifindices).
                      lastNetIdOr0 s idx = lastNetId \<and> isVirtualNetworkLocked s lastNetId)))"
proof -
  have v: "isVirtualNetworkLocked (s\<lparr>mAddressToIfindices := a\<rparr>) netId = isVirtualNetworkLocked s netId"
    for a netId by (rule isVirtualNetworkLocked_cong) simp
  have l: "lastNetIdOr0 (s\<lparr>mAddressToIfindices := a\<rparr>) idx = lastNetIdOr0 s idx" for a idx
    by (simp add: lastNetIdOr0_def)
  show ?thesis
    by (simp add: removeInterfaceAddress_def Let_def handoverLoop_result v l
        split: option.splits)
qed

lemma handover_reached: "run exampleConfig [] handoverSteps = handoverController"
  unfolding run_def handoverSteps_def NetworkController_example
  by (simp add: handoverController_def emptyController_def exampleConfig_def tunKernel_def
      createVirtualNetwork_def MIN_NET_ID_def MAX_NET_ID_def isValidNetworkLocked_def
      getNetworkLocked_def modifyFallthroughLocked_def NETID_UNSET_def newVirtualNetwork_def
      newNetwork_def addInterfaceToNetwork_def getNetworkForInterfaceLocked_def hasInterface_def
      callOn_def addInterface_def logCall_def setNetwork_def invoke_def toUnsigned_def
      addInterfaceAddress_def PERMISSION_NONE_def)

lemma removeInterfaceAddress_decision:
  assumes nv: "\<not> isVirtualNetworkLocked s NETID_UNSET"
  shows
  "(mAddressToIfindices s address = None \<longrightarrow> fst (removeInterfaceAddress ifindex address s)) \<and>
   (\<forall>ifindices. mAddressToIfindices s address = Some ifindices \<longrightarrow>
      (ifindex \<notin> set ifindices \<longrightarrow> fst (removeInterfaceAddress ifindex address s)) \<and>
      (set ifindices - {ifindex} = {} \<longrightarrow> fst (removeInterfaceAddress ifindex address s)) \<and>
      (mIfindexToLastNetId s ifindex = None \<longrightarrow> fst (removeInterfaceAddress ifindex address s)) \<and>
      (\<forall>lastNetId.
         ifindex \<in> set ifindices \<and> set ifindices - {ifindex} \<noteq> {} \<and>
         mIfindexToLastNetId s ifindex = Some lastNetId \<longrightarrow>
         (\<not> fst (removeInterfaceAddress ifindex address s)) =
           (\<exists>idx \<in> set ifindices - {ifindex}.
              mIfindexToLastNetId s idx = Some lastNetId \<and>
              isVirtualNetworkLocked s lastNetId)))"
proof -
  have eq: "(lastNetIdOr0 s idx = lastNetId \<and> isVirtualNetworkLocked s lastNetId) =
      (mIfindexToLastNetId s idx = Some lastNetId \<and> isVirtualNetworkLocked s lastNetId)"
    for idx lastNetId
  proof (cases "mIfindexToLastNetId s idx")
    case None
    then show ?thesis using nv by (auto simp: lastNetIdOr0_def NETID_UNSET_def)
  next
    case (Some netId)
    then show ?thesis by (auto simp: lastNetIdOr0_def)
  qed
  have empty: "(removeAll ifindex ifindices = []) = (set ifindices - {ifindex} = {})" for ifindices
    by (metis set_empty set_removeAll)
  show ?thesis
    unfolding removeInterfaceAddress_result
    by (simp add: eq empty split: option.splits)
qed

text \<open>
  C6. In every state the registry reaches, removeInterfaceAddress(ifindex, addr) returns
  true whenever addr is not recorded, or ifindex is not in addr's recorded set, or
  removing ifindex empties that set, or ifindex has no entry in ifindexToLastNetId;
  otherwise it returns false if and only if some remaining ifindex recorded for addr maps
  in ifindexToLastNetId to the same netId as the removed ifindex and that netId is a
  registered Virtual network.
\<close>

theorem removeInterfaceAddress_force_close:
  "(mAddressToIfindices (run c ifIndices steps) address = None \<longrightarrow>
      fst (removeInterfaceAddress ifindex address (run c ifIndices steps))) \<and>
   (\<forall>ifindices. mAddressToIfindices (run c ifIndices steps) address = Some ifindices \<longrightarrow>
      (ifindex \<notin> set ifindices \<longrightarrow>
         fst (removeInterfaceAddress ifindex address (run c ifIndices steps))) \<and>
      (set ifindices - {ifindex} = {} \<longrightarrow>
         fst (removeInterfaceAddress ifindex address (run c ifIndices steps))) \<and>
      (mIfindexToLastNetId (run c ifIndices steps) ifindex = None \<longrightarrow>
         fst (removeInterfaceAddress ifindex address (run c ifIndices steps))) \<and>
      (\<forall>lastNetId.
         ifindex \<in> set ifindices \<and> set ifindices - {ifindex} \<noteq> {} \<and>
         mIfindexToLastNetId (run c ifIndices steps) ifindex = Some lastNetId \<longrightarrow>
         (\<not> fst (removeInterfaceAddress ifindex address (run c ifIndices steps))) =
           (\<exists>idx \<in> set ifindices - {ifindex}.
              mIfindexToLastNetId (run c ifIndices steps) idx = Some lastNetId \<and>
              isVirtualNetworkLocked (run c ifIndices steps) lastNetId)))"
  by (rule removeInterfaceAddress_decision)
     (rule wellFormed_unset_not_virtual [OF run_wellFormed])

text \<open>The handover: removing the address from ifindex 10 returns false, since ifindex 11
  of the same VPN still carries it; removing it from 11 afterwards returns true, and so
  does removing an address that is not recorded.\<close>

theorem removeInterfaceAddress_force_close_witness:
  "\<not> fst (removeInterfaceAddress 10 ''2001:db8::1'' (run exampleConfig [] handoverSteps)) \<and>
   fst (removeInterfaceAddress 11 ''2001:db8::1''
          (snd (removeInterfaceAddress 10 ''2001:db8::1'' (run exampleConfig [] handoverSteps)))) \<and>
   fst (removeInterfaceAddress 10 ''192.0.2.1'' (run exampleConfig [] handoverSteps))"
proof -
  let ?s = "run exampleConfig [] handoverSteps"
  have a: "mAddressToIfindices ?s ''2001:db8::1'' = Some [10, 11]"
    "mAddressToIfindices ?s ''192.0.2.1'' = None"
    "mIfindexToLastNetId ?s 10 = Some 101" "mIfindexToLastNetId ?s 11 = Some 101"
    "isVirtualNetworkLocked ?s 101"
    by (simp_all add: handover_reached handoverController_def emptyController_def
        isVirtualNetworkLocked_def getNetworkLocked_def isVirtual_def newNetwork_def)
  have second: "fst (removeInterfaceAddress 11 ''2001:db8::1''
          (snd (removeInterfaceAddress 10 ''2001:db8::1'' ?s)))"
    unfolding handover_reached
    by (simp add: removeInterfaceAddress_def handoverController_def emptyController_def
        lastNetIdAt_def isVirtualNetworkLocked_def getNetworkLocked_def isVirtual_def
        newNetwork_def)
  show ?thesis
    using removeInterfaceAddress_force_close
        [of exampleConfig "[]" handoverSteps "''2001:db8::1''" 10]
      removeInterfaceAddress_force_close
        [of exampleConfig "[]" handoverSteps "''192.0.2.1''" 10]
      a second
    by simp
qed

section \<open>C7: the batch of createChildChains\<close>

text \<open>
  C7. For every table, parent chain and ordered list of child chains (names that are not
  empty and hold no space and no newline) and every listing of the parent:

  an exclusive install emits the lines ":parent -" and "-F parent" and then, for every
  child in order, ":child -" and "-A parent -j child";

  a cooperative install on one address family emits a batch that has a line ":child -"
  for every child, has the link "-A parent -j child" of a child exactly when that line,
  with nothing after the name of the child, is not a line of the listed contents of the
  parent (a listing that fails lists nothing), has no line that deletes or flushes, and
  has the line ":parent -" only if the parent is one of the children.
\<close>

theorem createChildChains_batch:
  "NL \<notin> set table \<and> chainName parent \<and> (\<forall>child \<in> set children. chainName child) \<longrightarrow>
   (\<exists>batch.
      createChildChains restore target table parent children True = Some (target, batch) \<and>
      getlines batch =
        [tableLine table, createLine parent, flushLine parent]
          @ concat (map (\<lambda>child. [createLine child, linkLine parent child]) children)
          @ [''COMMIT'']) \<and>
   (target \<noteq> V4V6 \<longrightarrow>
    (\<exists>batch.
      createChildChains restore target table parent children False = Some (target, batch) \<and>
      (\<forall>child \<in> set children. createLine child \<in> set (getlines batch)) \<and>
      (\<forall>child \<in> set children.
         linkLine parent child \<in> set (getlines batch) \<longleftrightarrow>
           fst (restore target (listCommand table parent)) = - 1 \<or>
           linkLine parent child
             \<notin> set (getlines (snd (restore target (listCommand table parent))))) \<and>
      (\<forall>line \<in> set (getlines batch). \<not> deleteCommand line \<and> \<not> flushCommand line) \<and>
      (createLine parent \<in> set (getlines batch) \<longrightarrow> parent \<in> set children)))"
proof (intro impI conjI)
  assume a: "NL \<notin> set table \<and> chainName parent \<and> (\<forall>child \<in> set children. chainName child)"
  then have t: "NL \<notin> set table" and p: "chainName parent"
    and c: "\<forall>child \<in> set children. chainName child"
    by simp_all
  show "\<exists>batch.
      createChildChains restore target table parent children True = Some (target, batch) \<and>
      getlines batch =
        [tableLine table, createLine parent, flushLine parent]
          @ concat (map (\<lambda>child. [createLine child, linkLine parent child]) children)
          @ [''COMMIT'']"
    unfolding exclusive_command using exclusive_lines [OF t p c]
    by (simp add: childLines_all)
next
  assume a: "NL \<notin> set table \<and> chainName parent \<and> (\<forall>child \<in> set children. chainName child)"
  then have t: "NL \<notin> set table" and p: "chainName parent"
    and c: "\<forall>child \<in> set children. chainName child"
    by simp_all
  assume target: "target \<noteq> V4V6"
  let ?listing = "restore target (listCommand table parent)"
  let ?existing = "if fst ?listing = - 1 then {}
     else existingLoop parent (getlines (snd ?listing)) {}"
  let ?lines = "tableLine table # childLines parent ?existing children @ [''COMMIT'']"
  let ?batch = "concat (map (\<lambda>l. l @ [NL]) ?lines)"
  have found: "findExistingChildChains restore target table parent = Some ?existing"
    using target by (rule findExistingChildChains_eq)
  have batch: "createChildChains restore target table parent children False
      = Some (target, ?batch)"
    using found by (rule cooperative_command)
  have lines: "getlines ?batch = ?lines"
    using t p c by (rule cooperative_lines)
  have 1: "\<forall>child \<in> set children. createLine child \<in> set (getlines ?batch)"
    unfolding lines createLine_lines by simp
  have 2: "\<forall>child \<in> set children.
         linkLine parent child \<in> set (getlines ?batch) \<longleftrightarrow>
           fst ?listing = - 1 \<or> linkLine parent child \<notin> set (getlines (snd ?listing))"
  proof
    fix child
    assume m: "child \<in> set children"
    with c have "chainName child" by simp
    then have "child \<in> existingLoop parent (getlines (snd ?listing)) {}
        \<longleftrightarrow> linkLine parent child \<in> set (getlines (snd ?listing))"
      using p by (simp add: existing_iff)
    then show "linkLine parent child \<in> set (getlines ?batch) \<longleftrightarrow>
           fst ?listing = - 1 \<or> linkLine parent child \<notin> set (getlines (snd ?listing))"
      unfolding lines linkLine_lines using m by simp
  qed
  have 3: "\<forall>line \<in> set (getlines ?batch). \<not> deleteCommand line \<and> \<not> flushCommand line"
    unfolding lines using no_delete_lines by blast
  have 4: "createLine parent \<in> set (getlines ?batch) \<longrightarrow> parent \<in> set children"
    unfolding lines createLine_lines by simp
  from batch 1 2 3 4 show "\<exists>batch.
      createChildChains restore target table parent children False = Some (target, batch) \<and>
      (\<forall>child \<in> set children. createLine child \<in> set (getlines batch)) \<and>
      (\<forall>child \<in> set children.
         linkLine parent child \<in> set (getlines batch) \<longleftrightarrow>
           fst ?listing = - 1 \<or> linkLine parent child \<notin> set (getlines (snd ?listing))) \<and>
      (\<forall>line \<in> set (getlines batch). \<not> deleteCommand line \<and> \<not> flushCommand line) \<and>
      (createLine parent \<in> set (getlines batch) \<longrightarrow> parent \<in> set children)"
    by blast
qed

text \<open>The listing of filter OUTPUT has the link of a vendor and the link of oem\_out: the
  cooperative install links the three other children only, and the exclusive install
  flushes OUTPUT and links all four, as does a cooperative install whose listing
  fails.\<close>

theorem createChildChains_batch_witness:
  "NL \<notin> set ''filter'' \<and> chainName ''OUTPUT'' \<and> list_all chainName outputChildren \<and>
   map_option (\<lambda>call. (fst call, getlines (snd call)))
       (createChildChains vendorListing V4 ''filter'' ''OUTPUT'' outputChildren False)
     = Some (V4, [''*filter'', '':oem_out -'',
          '':fw_OUTPUT -'', ''-A OUTPUT -j fw_OUTPUT'',
          '':st_OUTPUT -'', ''-A OUTPUT -j st_OUTPUT'',
          '':bw_OUTPUT -'', ''-A OUTPUT -j bw_OUTPUT'', ''COMMIT'']) \<and>
   map_option (\<lambda>call. (fst call, getlines (snd call)))
       (createChildChains vendorListing V4V6 ''filter'' ''OUTPUT'' outputChildren True)
     = Some (V4V6, [''*filter'', '':OUTPUT -'', ''-F OUTPUT'',
          '':oem_out -'', ''-A OUTPUT -j oem_out'',
          '':fw_OUTPUT -'', ''-A OUTPUT -j fw_OUTPUT'',
          '':st_OUTPUT -'', ''-A OUTPUT -j st_OUTPUT'',
          '':bw_OUTPUT -'', ''-A OUTPUT -j bw_OUTPUT'', ''COMMIT'']) \<and>
   map_option (\<lambda>call. (fst call, getlines (snd call)))
       (createChildChains failedListing V6 ''filter'' ''OUTPUT'' outputChildren False)
     = Some (V6, [''*filter'',
          '':oem_out -'', ''-A OUTPUT -j oem_out'',
          '':fw_OUTPUT -'', ''-A OUTPUT -j fw_OUTPUT'',
          '':st_OUTPUT -'', ''-A OUTPUT -j st_OUTPUT'',
          '':bw_OUTPUT -'', ''-A OUTPUT -j bw_OUTPUT'', ''COMMIT''])"
  using createChildChains_batch
      [of "''filter''" "''OUTPUT''" outputChildren vendorListing V4]
    example_names
  by (simp add: createChildChains_def findExistingChildChains_def vendorListing_def
      failedListing_def
      outputChildren_def regex_search_def CHILD_CHAIN_TEMPLATE_def NL_def tableLine_def
      createLine_def flushLine_def linkLine_def listCommand_def deleteCommand_def
      flushCommand_def)

section \<open>C8: setDefaultNetwork and getDefaultNetwork\<close>













section \<open>C9: the VPN uid can protect\<close>

lemma setPermissionForNetworks_protectable [simp]:
  "mProtectableUsers (snd (setPermissionForNetworks k permission netIds s)) = mProtectableUsers s"
  by (induction netIds arbitrary: s) (simp_all add: split_beta split: option.splits)

lemma applyAllowlist_protectable [simp]:
  "mProtectableUsers (applyAllowlist rangeConfigs s) = mProtectableUsers s"
proof (induction rangeConfigs arbitrary: s)
  case Nil
  show ?case by simp
next
  case (Cons config rest)
  obtain netId uidRanges where "config = (netId, uidRanges)" by (cases config)
  then show ?case using Cons.IH by (simp split: option.splits)
qed

lemma protectable_frames [simp]:
  "mProtectableUsers (snd (setDefaultNetwork k netId s)) = mProtectableUsers s"
  "mProtectableUsers (snd (createPhysicalNetworkLocked c k netId permission local s))
     = mProtectableUsers s"
  "mProtectableUsers (snd (snd (createPhysicalOemNetwork c k permission pNetId s)))
     = mProtectableUsers s"
  "mProtectableUsers (snd (createVirtualNetwork c k netId secure vpnType excludeLocalRoutes s))
     = mProtectableUsers s"
  "mProtectableUsers (snd (destroyNetwork c k netId s)) = mProtectableUsers s"
  "mProtectableUsers (snd (addInterfaceToNetwork c k netId interface s)) = mProtectableUsers s"
  "mProtectableUsers (snd (removeInterfaceFromNetwork k netId interface s)) = mProtectableUsers s"
  "mProtectableUsers (setPermissionForUsers permission uids s) = mProtectableUsers s"
  "mProtectableUsers (snd (addUsersToNetwork k netId uidRanges subPriority s))
     = mProtectableUsers s"
  "mProtectableUsers (snd (removeUsersFromNetwork k netId uidRanges subPriority s))
     = mProtectableUsers s"
  "mProtectableUsers (addInterfaceAddress ifIndex address s) = mProtectableUsers s"
  "mProtectableUsers (snd (setNetworkAllowlist rangeConfigs s)) = mProtectableUsers s"
  by (simp_all add: setDefaultNetwork_def createPhysicalNetworkLocked_def
      createPhysicalOemNetwork_def createVirtualNetwork_def destroyNetwork_def
      addInterfaceToNetwork_def removeInterfaceFromNetwork_def setPermissionForUsers_def
      addUsersToNetwork_def removeUsersFromNetwork_def addInterfaceAddress_def
      setNetworkAllowlist_def split_beta Let_def split: option.splits)

lemma exec_protectable:
  "p \<in> mProtectableUsers s \<Longrightarrow> cmd \<noteq> DenyProtect (fst p) (snd p) \<Longrightarrow>
   p \<in> mProtectableUsers (exec c k cmd s)"
  by (cases cmd) (auto simp: createPhysicalNetwork_def allowProtect_def denyProtect_def)

lemma foldl_exec_protectable:
  "p \<in> mProtectableUsers s \<Longrightarrow> \<forall>step \<in> set steps. snd step \<noteq> DenyProtect (fst p) (snd p) \<Longrightarrow>
   p \<in> mProtectableUsers (foldl (\<lambda>s (k, cmd). exec c k cmd s) s steps)"
proof (induction steps arbitrary: s)
  case Nil
  then show ?case by simp
next
  case (Cons step steps)
  obtain k cmd where step: "step = (k, cmd)" by (cases step)
  have "cmd \<noteq> DenyProtect (fst p) (snd p)" using Cons.prems(2) step by simp
  with Cons.prems(1) have "p \<in> mProtectableUsers (exec c k cmd s)" by (rule exec_protectable)
  moreover have "\<forall>step \<in> set steps. snd step \<noteq> DenyProtect (fst p) (snd p)"
    using Cons.prems(2) by simp
  ultimately show ?case using Cons.IH step by simp
qed


lemma denyProtect_permission:
  "getPermissionForUserLocked c (snd (denyProtect uid netId s)) uid' =
     getPermissionForUserLocked c s uid'"
  by (simp add: denyProtect_def getPermissionForUserLocked_def)

lemma canProtect_after_deny:
  assumes "(uid, NETID_UNSET) \<in> mProtectableUsers s"
  shows "canProtect c (snd (denyProtect uid NETID_UNSET s)) uid n =
     (getPermissionForUser c s uid AND PERMISSION_SYSTEM c = PERMISSION_SYSTEM c \<or>
      n \<noteq> NETID_UNSET \<and> (uid, n) \<in> mProtectableUsers s)"
  unfolding canProtect_def canProtectLocked_def denyProtect_permission getPermissionForUser_def
  using assms by (auto simp add: isProtectableLocked_def denyProtect_def)

text \<open>
  C9, as amended. In a freshly constructed registry the protectable set contains the pair
  (AID_VPN, UNSET), and the permission of AID_VPN is SYSTEM when AID_VPN is below
  FIRST_APPLICATION_UID and NONE otherwise. After any sequence of operations, in any
  environment, that holds no denyProtect(AID_VPN, UNSET), the pair is still there and
  canProtect(AID_VPN, n) is true for every netId n, whatever permission the uid has.
  Wherever the pair is present, canProtect(AID_VPN, n) is true for every n, and
  denyProtect(AID_VPN, UNSET) returns 0 and removes the pair; after it,
  canProtect(AID_VPN, n) is true exactly when AID_VPN has the SYSTEM bit or the pair
  (AID_VPN, n), n not UNSET, is protectable: with no SYSTEM bit and no such pair, it is the
  pair (AID_VPN, UNSET) that grants the protection.
\<close>

theorem vpn_uid_can_protect:
  "(AID_VPN c, NETID_UNSET) \<in> mProtectableUsers (NetworkController c ifIndices) \<and>
   getPermissionForUser c (NetworkController c ifIndices) (AID_VPN c) =
     (if AID_VPN c < FIRST_APPLICATION_UID c then PERMISSION_SYSTEM c else PERMISSION_NONE) \<and>
   ((\<forall>step \<in> set steps. snd step \<noteq> DenyProtect (AID_VPN c) NETID_UNSET) \<longrightarrow>
      (AID_VPN c, NETID_UNSET) \<in> mProtectableUsers (run c ifIndices steps) \<and>
      canProtect c (run c ifIndices steps) (AID_VPN c) n) \<and>
   ((AID_VPN c, NETID_UNSET) \<in> mProtectableUsers s \<longrightarrow>
      canProtect c s (AID_VPN c) n \<and>
      fst (denyProtect (AID_VPN c) NETID_UNSET s) = 0 \<and>
      (AID_VPN c, NETID_UNSET) \<notin> mProtectableUsers (snd (denyProtect (AID_VPN c) NETID_UNSET s)) \<and>
      canProtect c (snd (denyProtect (AID_VPN c) NETID_UNSET s)) (AID_VPN c) n =
        (getPermissionForUser c s (AID_VPN c) AND PERMISSION_SYSTEM c = PERMISSION_SYSTEM c \<or>
         n \<noteq> NETID_UNSET \<and> (AID_VPN c, n) \<in> mProtectableUsers s))"
proof (intro conjI impI)
  show init: "(AID_VPN c, NETID_UNSET) \<in> mProtectableUsers (NetworkController c ifIndices)"
    by (simp add: NetworkController_def)
  show "getPermissionForUser c (NetworkController c ifIndices) (AID_VPN c) =
     (if AID_VPN c < FIRST_APPLICATION_UID c then PERMISSION_SYSTEM c else PERMISSION_NONE)"
    by (simp add: getPermissionForUser_def getPermissionForUserLocked_def NetworkController_def)
  {
    assume "\<forall>step \<in> set steps. snd step \<noteq> DenyProtect (AID_VPN c) NETID_UNSET"
    then show mem: "(AID_VPN c, NETID_UNSET) \<in> mProtectableUsers (run c ifIndices steps)"
      unfolding run_def using init by (intro foldl_exec_protectable) simp_all
    then show "canProtect c (run c ifIndices steps) (AID_VPN c) n"
      by (simp add: canProtect_def canProtectLocked_def isProtectableLocked_def)
  }
  {
    assume mem: "(AID_VPN c, NETID_UNSET) \<in> mProtectableUsers s"
    then show "canProtect c s (AID_VPN c) n"
      by (simp add: canProtect_def canProtectLocked_def isProtectableLocked_def)
    from mem show "fst (denyProtect (AID_VPN c) NETID_UNSET s) = 0"
      by (simp add: denyProtect_def)
    from mem show "(AID_VPN c, NETID_UNSET) \<notin>
        mProtectableUsers (snd (denyProtect (AID_VPN c) NETID_UNSET s))"
      by (simp add: denyProtect_def)
    from mem show "canProtect c (snd (denyProtect (AID_VPN c) NETID_UNSET s)) (AID_VPN c) n =
        (getPermissionForUser c s (AID_VPN c) AND PERMISSION_SYSTEM c = PERMISSION_SYSTEM c \<or>
         n \<noteq> NETID_UNSET \<and> (AID_VPN c, n) \<in> mProtectableUsers s)"
      by (rule canProtect_after_deny)
  }
qed

text \<open>With permission NONE set for the uid 1016, which has then no SYSTEM bit, the uid
  can protect on network 100 until denyProtect(1016, UNSET), and no longer after it.\<close>

lemma vpn_reached:
  "run exampleConfig [] vpnSteps =
     (NetworkController exampleConfig [])\<lparr>mUsers := [1016 \<mapsto> PERMISSION_NONE]\<rparr>"
  by (simp add: run_def vpnSteps_def setPermissionForUsers_def denyProtect_def
      NetworkController_example emptyController_def)

theorem vpn_uid_can_protect_witness:
  "getPermissionForUser exampleConfig (run exampleConfig [] vpnSteps) 1016 = PERMISSION_NONE \<and>
   PERMISSION_NONE AND PERMISSION_SYSTEM exampleConfig \<noteq> PERMISSION_SYSTEM exampleConfig \<and>
   canProtect exampleConfig (run exampleConfig [] vpnSteps) 1016 100 \<and>
   fst (denyProtect 1016 NETID_UNSET (run exampleConfig [] vpnSteps)) = 0 \<and>
   \<not> canProtect exampleConfig
       (snd (denyProtect 1016 NETID_UNSET (run exampleConfig [] vpnSteps))) 1016 100"
proof -
  let ?s = "run exampleConfig [] vpnSteps"
  have steps: "\<forall>step \<in> set vpnSteps. snd step \<noteq> DenyProtect (AID_VPN exampleConfig) NETID_UNSET"
    by (simp add: vpnSteps_def NETID_UNSET_def)
  have perm: "getPermissionForUser exampleConfig ?s 1016 = PERMISSION_NONE"
    by (simp add: getPermissionForUser_def getPermissionForUserLocked_def vpn_reached)
  have none: "PERMISSION_NONE AND PERMISSION_SYSTEM exampleConfig \<noteq> PERMISSION_SYSTEM exampleConfig"
    by (simp add: PERMISSION_NONE_def exampleConfig_def)
  have pairs: "(1016, 100) \<notin> mProtectableUsers ?s"
    by (simp add: vpn_reached NetworkController_example emptyController_def)
  have aid: "AID_VPN exampleConfig = 1016" by (simp add: exampleConfig_def)
  show ?thesis
    using vpn_uid_can_protect [of exampleConfig "[]" vpnSteps 100 ?s] steps perm none pairs
    by (simp add: aid)
qed

text \<open>
  C9 as stated fails where AID_VPN is below FIRST_APPLICATION_UID, as 1016 is below
  10000: in the fresh registry the uid has the SYSTEM bit, and canProtect(AID_VPN, 100)
  is still true after denyProtect(AID_VPN, UNSET) has removed the pair.
\<close>

theorem vpn_uid_system_counterexample:
  "getPermissionForUser exampleConfig (NetworkController exampleConfig []) (AID_VPN exampleConfig)
       AND PERMISSION_SYSTEM exampleConfig = PERMISSION_SYSTEM exampleConfig \<and>
   fst (denyProtect (AID_VPN exampleConfig) NETID_UNSET (NetworkController exampleConfig [])) = 0 \<and>
   (AID_VPN exampleConfig, NETID_UNSET) \<notin> mProtectableUsers
       (snd (denyProtect (AID_VPN exampleConfig) NETID_UNSET (NetworkController exampleConfig []))) \<and>
   canProtect exampleConfig
       (snd (denyProtect (AID_VPN exampleConfig) NETID_UNSET (NetworkController exampleConfig [])))
       (AID_VPN exampleConfig) 100"
proof -
  have vals: "AID_VPN exampleConfig = 1016" "FIRST_APPLICATION_UID exampleConfig = 10000"
    "PERMISSION_SYSTEM exampleConfig = 3"
    by (simp_all add: exampleConfig_def)
  show ?thesis
    by (simp add: getPermissionForUser_def getPermissionForUserLocked_def canProtect_def
        canProtectLocked_def denyProtect_def NetworkController_example emptyController_def
        vals NETID_UNSET_def)
qed
section \<open>C10: network selection for a uid\<close>

text \<open>
  C10. In every state the registry reaches and for every uid: when a Virtual network
  applies to uid, getNetworkForUser(uid) returns the netId of one that does (the one with
  the smallest netId); otherwise it returns what getNetworkForConnect(uid) returns, which
  is the netId of an applicable Physical or Unreachable network with the smallest
  subPriority below SUB_PRIORITY_NO_DEFAULT when there is one, and the current default
  netId otherwise. What getNetworkForConnect(uid) returns is never the netId of a
  Virtual network.
\<close>

theorem getNetworkForUser_resolution:
  "((\<exists>e \<in> set (mNetworks (run c ifIndices steps)). vpnApplies uid e) \<longrightarrow>
      (\<exists>e \<in> set (mNetworks (run c ifIndices steps)). vpnApplies uid e \<and>
         (\<forall>e' \<in> set (mNetworks (run c ifIndices steps)). vpnApplies uid e' \<longrightarrow> fst e \<le> fst e') \<and>
         getNetworkForUser (run c ifIndices steps) uid = fst e)) \<and>
   (\<not> (\<exists>e \<in> set (mNetworks (run c ifIndices steps)). vpnApplies uid e) \<longrightarrow>
      getNetworkForUser (run c ifIndices steps) uid
        = getNetworkForConnect (run c ifIndices steps) uid) \<and>
   ((\<exists>e. isAppDefault (run c ifIndices steps) uid e) \<longrightarrow>
      (\<exists>e. isAppDefault (run c ifIndices steps) uid e \<and>
           getNetworkForConnect (run c ifIndices steps) uid = fst e)) \<and>
   (\<not> (\<exists>e. isAppDefault (run c ifIndices steps) uid e) \<longrightarrow>
      getNetworkForConnect (run c ifIndices steps) uid = mDefaultNetId (run c ifIndices steps)) \<and>
   \<not> isVirtualNetworkLocked (run c ifIndices steps)
       (getNetworkForConnect (run c ifIndices steps) uid)"
  by (rule network_selection) (rule run_wellFormed)

text \<open>For uid 10001 the VPN 101 wins in getNetworkForUser, while getNetworkForConnect
  gives the default 100; uid 10002, under no VPN, gets its app default 102.\<close>

theorem getNetworkForUser_resolution_witness:
  "(\<exists>e \<in> set (mNetworks (run exampleConfig [] selectionSteps)). vpnApplies 10001 e) \<and>
   getNetworkForUser (run exampleConfig [] selectionSteps) 10001 = 101 \<and>
   getNetworkForConnect (run exampleConfig [] selectionSteps) 10001 = 100 \<and>
   \<not> isVirtualNetworkLocked (run exampleConfig [] selectionSteps) 100 \<and>
   \<not> (\<exists>e \<in> set (mNetworks (run exampleConfig [] selectionSteps)). vpnApplies 10002 e) \<and>
   getNetworkForUser (run exampleConfig [] selectionSteps) 10002 = 102"
proof -
  let ?s = "run exampleConfig [] selectionSteps"
  have vpn: "\<exists>e \<in> set (mNetworks ?s). vpnApplies 10001 e"
    by (simp add: selection_reached selectionController_def emptyController_def newNetwork_def
        vpnApplies_def appliesTo_def)
  have novpn: "\<not> (\<exists>e \<in> set (mNetworks ?s). vpnApplies 10002 e)"
    by (simp add: selection_reached selectionController_def emptyController_def newNetwork_def
        vpnApplies_def appliesTo_def)
  show ?thesis
    using getNetworkForUser_resolution [of exampleConfig "[]" selectionSteps 10001]
      getNetworkForUser_resolution [of exampleConfig "[]" selectionSteps 10002]
      vpn novpn selection_lookups
    by (simp add: selection_reached)
qed

end
